theory Spec2Isabelle
  imports Complex_Main "HOL-Library.Word"
begin

unbundle bit_operations_syntax

section \<open>The chat store of native-llama (src/store.js)\<close>

text \<open>
  The store is a zustand store wrapped in the persist middleware. Its state holds the
  chat sessions and the id of the current one; the actions are \<open>createChat\<close>,
  \<open>sendMessage\<close>, \<open>addMessage\<close>, \<open>deleteChat\<close> and \<open>setCurrentChat\<close>.
  This theory embeds them as functions on an explicit state.

  What the platform supplies is an input of the model: the values \<open>uuidv4()\<close> returns,
  the outcome of \<open>fetch\<close> and of every \<open>reader.read()\<close>, and the function
  \<open>JSON.parse\<close>. The fields \<open>availableModels\<close>, \<open>loadingModels\<close>, \<open>apiError\<close>
  (written by \<open>fetchModels\<close> only) and \<open>tokenSpeed\<close> (written only by the debounced
  timer callback of \<open>updateSpeed\<close>, never by \<open>sendMessage\<close> itself) are left out of the
  state: no action modelled here reads them.
\<close>

subsection \<open>JavaScript strings\<close>

text \<open>
  A JavaScript string is a sequence of 16-bit code units; the chunks of a response body
  are bytes. \<open>js\<close> writes an ASCII literal as a JavaScript string, \<open>bytes\<close> as its
  UTF-8 encoding.
\<close>

type_synonym jschar = "16 word"
type_synonym jsstring = "jschar list"
type_synonym byte = "8 word"

definition js :: "string \<Rightarrow> jsstring" where
  "js s = map of_char s"

definition bytes :: "string \<Rightarrow> byte list" where
  "bytes s = map of_char s"

subsection \<open>Data model\<close>

text \<open>
  A message object has \<open>text\<close>, \<open>sender\<close> and \<open>timestamp\<close> (a uuid, the identity of
  the message inside its chat); \<open>isStreaming\<close> is present on the assistant's placeholder
  only, so it is optional here (\<open>None\<close> is the absent property). The field \<open>id\<close> of
  a chat is called \<open>chat_id\<close>, since \<open>id\<close> is the identity function of HOL.
\<close>

record message =
  "text" :: jsstring
  sender :: jsstring
  timestamp :: jsstring
  isStreaming :: "bool option"

record chat =
  chat_id :: jsstring
  title :: jsstring
  model :: jsstring
  messages :: "message list"
  createdAt :: jsstring

record store =
  chats :: "chat list"
  currentChatId :: "jsstring option"

definition initial_store :: store where
  "initial_store = \<lparr>chats = [], currentChatId = None\<rparr>"

subsection \<open>The synchronous actions\<close>

text \<open>
  \<open>createChat(title, model)\<close> throws when \<open>model\<close> is falsy; \<open>uuid\<close> and \<open>now\<close> are
  the values of \<open>uuidv4()\<close> and \<open>new Date().toISOString()\<close>. The result is the thrown
  message, or the returned id with the new state.
\<close>

definition createChat ::
  "jsstring \<Rightarrow> jsstring \<Rightarrow> jsstring \<Rightarrow> jsstring \<Rightarrow> store \<Rightarrow> jsstring + jsstring \<times> store" where
  "createChat uuid now title_arg model_arg state =
     (if model_arg = [] then Inl (js ''No model selected'')
      else
        let newChat = \<lparr>chat_id = uuid,
                       title = (if title_arg = [] then js ''New Chat'' else title_arg),
                       model = model_arg,
                       messages = [],
                       createdAt = now\<rparr>
        in Inr (chat_id newChat,
                state\<lparr>chats := newChat # chats state,
                      currentChatId := Some (chat_id newChat)\<rparr>))"

definition addMessage :: "jsstring \<Rightarrow> message \<Rightarrow> store \<Rightarrow> store" where
  "addMessage chatId msg state =
     state\<lparr>chats :=
       map (\<lambda>chat. if chat_id chat = chatId
                   then chat\<lparr>messages := messages chat @ [msg]\<rparr>
                   else chat)
           (chats state)\<rparr>"

definition deleteChat :: "jsstring \<Rightarrow> store \<Rightarrow> store" where
  "deleteChat chatId state =
     state\<lparr>chats := filter (\<lambda>chat. chat_id chat \<noteq> chatId) (chats state),
           currentChatId :=
             (if currentChatId state = Some chatId then None else currentChatId state)\<rparr>"

definition setCurrentChat :: "jsstring option \<Rightarrow> store \<Rightarrow> store" where
  "setCurrentChat chatId state = state\<lparr>currentChatId := chatId\<rparr>"

subsection \<open>The state updates of sendMessage\<close>

text \<open>
  \<open>sendMessage\<close> changes the store through five calls \<open>set(state => ...)\<close>. Each hands
  zustand a function of the state that is current when it runs; none reads the store
  otherwise after the first \<open>get()\<close>. An \<open>update\<close> names the call site with the values
  the function closes over, and \<open>apply_update\<close> is that function.
\<close>

datatype update =
  AddUserMessage jsstring message
| AddAiMessage jsstring message
| Delta jsstring jsstring jsstring
| MarkError jsstring jsstring jsstring
| Finalize jsstring jsstring

definition map_messages :: "jsstring \<Rightarrow> (message list \<Rightarrow> message list) \<Rightarrow> store \<Rightarrow> store" where
  "map_messages chatId f state =
     state\<lparr>chats :=
       map (\<lambda>chat. if chat_id chat = chatId then chat\<lparr>messages := f (messages chat)\<rparr> else chat)
           (chats state)\<rparr>"

fun apply_update :: "update \<Rightarrow> store \<Rightarrow> store" where
  "apply_update (AddUserMessage chatId userMessage) state =
     map_messages chatId (\<lambda>ms. ms @ [userMessage]) state"
| "apply_update (AddAiMessage chatId aiMessage) state =
     map_messages chatId (\<lambda>ms. ms @ [aiMessage]) state"
| "apply_update (Delta chatId ts aiText) state =
     map_messages chatId
       (map (\<lambda>msg. if timestamp msg = ts then msg\<lparr>text := aiText\<rparr> else msg)) state"
| "apply_update (MarkError chatId ts error_message) state =
     map_messages chatId
       (map (\<lambda>msg. if timestamp msg = ts
                   then msg\<lparr>text := js ''Error: '' @ error_message, isStreaming := Some False\<rparr>
                   else msg)) state"
| "apply_update (Finalize chatId ts) state =
     map_messages chatId
       (map (\<lambda>msg. if timestamp msg = ts then msg\<lparr>isStreaming := Some False\<rparr> else msg)) state"

definition apply_updates :: "update list \<Rightarrow> store \<Rightarrow> store" where
  "apply_updates us state = foldl (\<lambda>s u. apply_update u s) state us"

subsection \<open>TextDecoder\<close>

text \<open>
  \<open>new TextDecoder()\<close> is the platform's UTF-8 decoder, not fatal, with the byte order
  mark stripped. Every call is \<open>decoder.decode(value, { stream: true })\<close>, so the
  decoder keeps its state between chunks and is never flushed. The model follows the
  decoder of the WHATWG Encoding standard byte by byte: \<open>utf8_handler\<close> is its handler
  (a byte that cannot continue a sequence yields U+FFFD and is read again as a first
  byte), \<open>serialize\<close> drops one leading U+FEFF and writes each scalar value as UTF-16.
\<close>

record utf8_decoder =
  code_point :: nat
  bytes_seen :: nat
  bytes_needed :: nat
  lower_boundary :: nat
  upper_boundary :: nat
  bom_seen :: bool

definition new_TextDecoder :: utf8_decoder where
  "new_TextDecoder =
     \<lparr>code_point = 0, bytes_seen = 0, bytes_needed = 0,
      lower_boundary = 0x80, upper_boundary = 0xBF, bom_seen = False\<rparr>"

definition utf8_reset :: "utf8_decoder \<Rightarrow> utf8_decoder" where
  "utf8_reset d =
     d\<lparr>code_point := 0, bytes_seen := 0, bytes_needed := 0,
       lower_boundary := 0x80, upper_boundary := 0xBF\<rparr>"

definition utf8_first :: "utf8_decoder \<Rightarrow> nat \<Rightarrow> utf8_decoder \<times> nat list" where
  "utf8_first d b =
     (if b \<le> 0x7F then (d, [b])
      else if 0xC2 \<le> b \<and> b \<le> 0xDF then
        (d\<lparr>bytes_needed := 1, code_point := b AND 0x1F\<rparr>, [])
      else if 0xE0 \<le> b \<and> b \<le> 0xEF then
        (d\<lparr>lower_boundary := (if b = 0xE0 then 0xA0 else lower_boundary d),
           upper_boundary := (if b = 0xED then 0x9F else upper_boundary d),
           bytes_needed := 2, code_point := b AND 0xF\<rparr>, [])
      else if 0xF0 \<le> b \<and> b \<le> 0xF4 then
        (d\<lparr>lower_boundary := (if b = 0xF0 then 0x90 else lower_boundary d),
           upper_boundary := (if b = 0xF4 then 0x8F else upper_boundary d),
           bytes_needed := 3, code_point := b AND 0x7\<rparr>, [])
      else (d, [0xFFFD]))"

definition utf8_handler :: "utf8_decoder \<Rightarrow> nat \<Rightarrow> utf8_decoder \<times> nat list" where
  "utf8_handler d b =
     (if bytes_needed d = 0 then utf8_first d b
      else if b < lower_boundary d \<or> upper_boundary d < b then
        (case utf8_first (utf8_reset d) b of (d', out) \<Rightarrow> (d', 0xFFFD # out))
      else
        let d1 = d\<lparr>lower_boundary := 0x80, upper_boundary := 0xBF,
                   code_point := push_bit 6 (code_point d) OR (b AND 0x3F),
                   bytes_seen := bytes_seen d + 1\<rparr>
        in if bytes_seen d1 \<noteq> bytes_needed d1 then (d1, [])
           else (utf8_reset d1, [code_point d1]))"

fun decode_bytes :: "utf8_decoder \<Rightarrow> byte list \<Rightarrow> utf8_decoder \<times> nat list" where
  "decode_bytes d [] = (d, [])"
| "decode_bytes d (b # bs) =
     (case utf8_handler d (unat b) of (d1, out1) \<Rightarrow>
        (case decode_bytes d1 bs of (d2, out2) \<Rightarrow> (d2, out1 @ out2)))"

definition utf16 :: "nat \<Rightarrow> jsstring" where
  "utf16 cp =
     (if cp < 0x10000 then [of_nat cp]
      else [of_nat (0xD800 + (cp - 0x10000) div 0x400),
            of_nat (0xDC00 + (cp - 0x10000) mod 0x400)])"

fun serialize :: "bool \<Rightarrow> nat list \<Rightarrow> bool \<times> jsstring" where
  "serialize seen [] = (seen, [])"
| "serialize seen (cp # cps) =
     (if \<not> seen \<and> cp = 0xFEFF then serialize True cps
      else case serialize True cps of (seen', out) \<Rightarrow> (seen', utf16 cp @ out))"

definition decode :: "utf8_decoder \<Rightarrow> byte list \<Rightarrow> utf8_decoder \<times> jsstring" where
  "decode d chunk =
     (case decode_bytes d chunk of (d', cps) \<Rightarrow>
        (case serialize (bom_seen d') cps of (seen, out) \<Rightarrow> (d'\<lparr>bom_seen := seen\<rparr>, out)))"

subsection \<open>String.prototype.trim and indexOf\<close>

text \<open>
  \<open>trim\<close> removes the white space and line terminators of ECMAScript from both ends;
  \<open>indexOf\<close> gives \<open>None\<close> where JavaScript gives \<open>-1\<close>.
\<close>

definition white_space :: "jschar \<Rightarrow> bool" where
  "white_space c \<longleftrightarrow>
     c \<in> {0x9, 0xA, 0xB, 0xC, 0xD, 0x20, 0xA0, 0x1680, 0x2028, 0x2029, 0x202F, 0x205F,
          0x3000, 0xFEFF} \<or> (0x2000 \<le> c \<and> c \<le> 0x200A)"

definition trim :: "jsstring \<Rightarrow> jsstring" where
  "trim s = rev (dropWhile white_space (rev (dropWhile white_space s)))"

definition indexOf :: "jsstring \<Rightarrow> jschar \<Rightarrow> nat option" where
  "indexOf s c = (if c \<in> set s then Some (length (takeWhile (\<lambda>x. x \<noteq> c) s)) else None)"

subsection \<open>Parsed records\<close>

text \<open>
  \<open>JSON.parse\<close> is a parameter \<open>JSON_parse\<close> of the model: \<open>None\<close> where it throws
  a SyntaxError, the value otherwise. An object lists its own properties, each key once.
  A number is kept as the text \<open>Number.prototype.toString\<close> gives for it (zero is
  \<open>JNum (js ''0'')\<close>): the code only tests a number for truth and appends it to a string.
  A JavaScript value that may be \<open>undefined\<close> is a \<open>json option\<close>.
\<close>

datatype json =
  JNull
| JBool bool
| JNum jsstring
| JStr jsstring
| JArr "json list"
| JObj "(jsstring \<times> json) list"

text \<open>
  \<open>v.key\<close> for a key that no prototype defines (\<open>message\<close>, \<open>content\<close>): the own
  property of an object, \<open>undefined\<close> on every other value but \<open>null\<close>, where the
  access throws a TypeError.
\<close>

fun get_property :: "json \<Rightarrow> jsstring \<Rightarrow> json option" where
  "get_property (JObj props) key = map_of props key"
| "get_property _ key = None"

text \<open>
  \<open>parsed.message?.content\<close>: \<open>None\<close> where \<open>parsed\<close> is \<open>null\<close> and the access
  throws; the optional chain gives \<open>undefined\<close> where \<open>parsed.message\<close> is
  \<open>undefined\<close> or \<open>null\<close>.
\<close>

definition message_content :: "json \<Rightarrow> json option option" where
  "message_content parsed =
     (case parsed of
        JNull \<Rightarrow> None
      | _ \<Rightarrow>
          (case get_property parsed (js ''message'') of
             None \<Rightarrow> Some None
           | Some JNull \<Rightarrow> Some None
           | Some msg \<Rightarrow> Some (get_property msg (js ''content''))))"

fun truthy :: "json option \<Rightarrow> bool" where
  "truthy None = False"
| "truthy (Some JNull) = False"
| "truthy (Some (JBool b)) = b"
| "truthy (Some (JNum n)) = (n \<noteq> js ''0'')"
| "truthy (Some (JStr s)) = (s \<noteq> [])"
| "truthy (Some (JArr xs)) = True"
| "truthy (Some (JObj props)) = True"

text \<open>
  The string that \<open>aiText += content\<close> appends: the content itself when it is a string,
  and what ToPrimitive and ToString make of any other value (an array is joined with
  commas). \<open>None\<close> is the TypeError for an object whose own property \<open>toString\<close>
  hides the inherited method, alone or as an element of an array.
\<close>

fun js_ToString :: "json \<Rightarrow> jsstring option"
  and js_join :: "json list \<Rightarrow> jsstring option" where
  "js_ToString JNull = Some (js ''null'')"
| "js_ToString (JBool b) = Some (if b then js ''true'' else js ''false'')"
| "js_ToString (JNum n) = Some n"
| "js_ToString (JStr s) = Some s"
| "js_ToString (JArr xs) = js_join xs"
| "js_ToString (JObj props) =
     (if js ''toString'' \<in> fst ` set props then None else Some (js ''[object Object]''))"
| "js_join [] = Some []"
| "js_join (x # xs) =
     (case (if x = JNull then Some [] else js_ToString x) of
        None \<Rightarrow> None
      | Some s \<Rightarrow>
          (if xs = [] then Some s
           else case js_join xs of None \<Rightarrow> None | Some r \<Rightarrow> Some (s @ js '','' @ r)))"

text \<open>
  \<open>tokenCount\<close> is a JavaScript number. The model tracks it exactly while every
  content appended is a string or an array; the inner \<open>None\<close> stands for a number it
  does not track: the NaN of \<open>undefined / 4\<close>, or what the own \<open>length\<close> property
  of an object is coerced to. \<open>content_tokens\<close> is \<open>content.length / 4\<close>; the outer
  \<open>None\<close> is the TypeError of coercing a \<open>length\<close> property that cannot be made a
  primitive value.
\<close>

fun content_tokens :: "json \<Rightarrow> rat option option" where
  "content_tokens (JStr s) = Some (Some (of_nat (length s) / 4))"
| "content_tokens (JArr xs) = Some (Some (of_nat (length xs) / 4))"
| "content_tokens (JObj props) =
     (case map_of props (js ''length'') of
        None \<Rightarrow> Some None
      | Some v \<Rightarrow> (case js_ToString v of None \<Rightarrow> None | Some s \<Rightarrow> Some None))"
| "content_tokens _ = Some None"

definition add_tokens :: "rat option \<Rightarrow> rat option \<Rightarrow> rat option" where
  "add_tokens a b = (case a of None \<Rightarrow> None | Some x \<Rightarrow> (case b of None \<Rightarrow> None | Some y \<Rightarrow> Some (x + y)))"

subsection \<open>The reading loop of sendMessage\<close>

text \<open>
  The local variables of the \<open>try\<close> block, with the \<open>set\<close> calls made so far.
  \<open>parsed_lines\<close> is not a variable of the source: it records every line that passed
  the blank test and was handed to \<open>JSON.parse\<close>. The clock readings and
  \<open>tokensPerSecond\<close> are left out; they feed \<open>updateSpeed\<close> only.
\<close>

record stream_state =
  decoder :: utf8_decoder
  buffer :: jsstring
  aiText :: jsstring
  tokenCount :: "rat option"
  sets :: "update list"
  parsed_lines :: "jsstring list"

definition initial_stream :: stream_state where
  "initial_stream =
     \<lparr>decoder = new_TextDecoder, buffer = [], aiText = [], tokenCount = Some 0,
      sets = [], parsed_lines = []\<rparr>"

text \<open>
  The body of the inner \<open>while\<close> for one line, after the two \<open>slice\<close> calls.
  Whatever the \<open>try\<close> block throws is caught and logged, and the loop goes on: a
  failed parse, the access to a property of \<open>null\<close>, a content that cannot be made
  a string (before \<open>aiText\<close> is assigned), a \<open>length\<close> that cannot be made a
  number (after it).
\<close>

definition process_line ::
  "(jsstring \<Rightarrow> json option) \<Rightarrow> jsstring \<Rightarrow> jsstring \<Rightarrow> jsstring \<Rightarrow> stream_state \<Rightarrow> stream_state" where
  "process_line JSON_parse chatId aiTimestamp line st =
     (if trim line = [] then st
      else
        let st1 = st\<lparr>parsed_lines := parsed_lines st @ [line]\<rparr> in
        case JSON_parse line of
          None \<Rightarrow> st1
        | Some parsed \<Rightarrow>
            (case message_content parsed of
               None \<Rightarrow> st1
             | Some None \<Rightarrow> st1
             | Some (Some content) \<Rightarrow>
                 if truthy (Some content) then
                   (case js_ToString content of
                      None \<Rightarrow> st1
                    | Some delta \<Rightarrow>
                        let st2 = st1\<lparr>aiText := aiText st1 @ delta\<rparr> in
                        (case content_tokens content of
                           None \<Rightarrow> st2
                         | Some tokens \<Rightarrow>
                             st2\<lparr>tokenCount := add_tokens (tokenCount st2) tokens,
                                 sets := sets st2 @ [Delta chatId aiTimestamp (aiText st2)]\<rparr>))
                 else st1))"

lemma buffer_process_line [simp]:
  "buffer (process_line JSON_parse chatId aiTimestamp line st) = buffer st"
  by (simp add: process_line_def Let_def split: option.split)

lemma length_takeWhile_mem: "c \<in> set s \<Longrightarrow> length (takeWhile (\<lambda>x. x \<noteq> c) s) < length s"
  by (induction s) auto

lemma indexOf_less: "indexOf s c = Some i \<Longrightarrow> i < length s"
  by (auto simp: indexOf_def length_takeWhile_mem split: if_splits)

text \<open>The inner \<open>while ((boundary = buffer.indexOf('\n')) >= 0)\<close>.\<close>

function drain ::
  "(jsstring \<Rightarrow> json option) \<Rightarrow> jsstring \<Rightarrow> jsstring \<Rightarrow> stream_state \<Rightarrow> stream_state" where
  "drain JSON_parse chatId aiTimestamp st =
     (case indexOf (buffer st) 0xA of
        None \<Rightarrow> st
      | Some boundary \<Rightarrow>
          drain JSON_parse chatId aiTimestamp
            (process_line JSON_parse chatId aiTimestamp (take boundary (buffer st))
               (st\<lparr>buffer := drop (boundary + 1) (buffer st)\<rparr>)))"
  by pat_completeness auto
termination
  by (relation "measure (\<lambda>(p, c, t, st). length (buffer st))") (auto dest: indexOf_less)

declare drain.simps [simp del]

text \<open>
  One turn of the outer \<open>while (!done)\<close> that read a chunk (\<open>if (value)\<close> holds for
  every Uint8Array, also an empty one).
\<close>

definition feed ::
  "(jsstring \<Rightarrow> json option) \<Rightarrow> jsstring \<Rightarrow> jsstring \<Rightarrow> byte list \<Rightarrow> stream_state \<Rightarrow> stream_state" where
  "feed JSON_parse chatId aiTimestamp chunk st =
     (case decode (decoder st) chunk of (d, decoded) \<Rightarrow>
        drain JSON_parse chatId aiTimestamp (st\<lparr>decoder := d, buffer := buffer st @ decoded\<rparr>))"

text \<open>
  What \<open>await reader.read()\<close> gives, in order: a chunk, or a rejection with the
  message of the error. The end of the list is \<open>{ done: true }\<close>. The result of the
  loop is the message of the error thrown, if any, with the local variables.
\<close>

datatype read_result = Chunk "byte list" | ReadRejected jsstring

fun read_loop ::
  "(jsstring \<Rightarrow> json option) \<Rightarrow> jsstring \<Rightarrow> jsstring \<Rightarrow> read_result list \<Rightarrow> stream_state
     \<Rightarrow> jsstring option \<times> stream_state" where
  "read_loop JSON_parse chatId aiTimestamp [] st = (None, st)"
| "read_loop JSON_parse chatId aiTimestamp (Chunk chunk # reads) st =
     read_loop JSON_parse chatId aiTimestamp reads (feed JSON_parse chatId aiTimestamp chunk st)"
| "read_loop JSON_parse chatId aiTimestamp (ReadRejected msg # reads) st = (Some msg, st)"

text \<open>
  "Process any remaining data in buffer": the rest of the buffer is parsed and its
  content appended to the local \<open>aiText\<close>; there is no \<open>set\<close> call here.
\<close>

definition final_buffer :: "(jsstring \<Rightarrow> json option) \<Rightarrow> stream_state \<Rightarrow> stream_state" where
  "final_buffer JSON_parse st =
     (if trim (buffer st) = [] then st
      else
        case JSON_parse (buffer st) of
          None \<Rightarrow> st
        | Some parsed \<Rightarrow>
            (case message_content parsed of
               None \<Rightarrow> st
             | Some None \<Rightarrow> st
             | Some (Some content) \<Rightarrow>
                 if truthy (Some content) then
                   (case js_ToString content of
                      None \<Rightarrow> st
                    | Some delta \<Rightarrow> st\<lparr>aiText := aiText st @ delta\<rparr>)
                 else st))"

subsection \<open>sendMessage\<close>

text \<open>The body of the POST request, before \<open>JSON.stringify\<close>.\<close>

record wire_message =
  role :: jsstring
  content :: jsstring

record request =
  req_model :: jsstring
  req_messages :: "wire_message list"
  req_stream :: bool

definition request_body :: "chat \<Rightarrow> message \<Rightarrow> jsstring \<Rightarrow> request" where
  "request_body chat userMessage messageText =
     \<lparr>req_model = model chat,
      req_messages =
        map (\<lambda>m. \<lparr>role = (if sender m = js ''user'' then js ''user'' else js ''assistant''),
                    content = text m\<rparr>)
            (filter (\<lambda>m. timestamp m \<noteq> timestamp userMessage) (messages chat))
        @ [\<lparr>role = js ''user'', content = messageText\<rparr>],
      req_stream = True\<rparr>"

text \<open>
  The outcome of \<open>fetch\<close>: a rejection, a response that is not ok, or a response
  whose body is read. The environment of one call gives the two uuids and the
  response to the request.
\<close>

datatype response = FetchRejected jsstring | NotOk | Body "read_result list"

record env =
  uuid_user :: jsstring
  uuid_ai :: jsstring
  fetch :: "request \<Rightarrow> response"

text \<open>The \<open>try\<close> block after \<open>fetch\<close>: the message of the error caught, and the locals.\<close>

definition try_block ::
  "(jsstring \<Rightarrow> json option) \<Rightarrow> jsstring \<Rightarrow> jsstring \<Rightarrow> response \<Rightarrow> jsstring option \<times> stream_state" where
  "try_block JSON_parse chatId aiTimestamp resp =
     (case resp of
        FetchRejected msg \<Rightarrow> (Some msg, initial_stream)
      | NotOk \<Rightarrow> (Some (js ''API request failed''), initial_stream)
      | Body reads \<Rightarrow>
          (case read_loop JSON_parse chatId aiTimestamp reads initial_stream of
             (Some msg, st) \<Rightarrow> (Some msg, st)
           | (None, st) \<Rightarrow> (None, final_buffer JSON_parse st)))"

text \<open>
  One call: the request sent, every \<open>set\<close> call in the order made, the error caught
  and the locals at the end of the \<open>try\<close> block. \<open>Inl\<close> is the error thrown to the
  caller.
\<close>

record call =
  request :: request
  updates :: "update list"
  caught :: "jsstring option"
  locals :: stream_state

definition sendMessage_call ::
  "(jsstring \<Rightarrow> json option) \<Rightarrow> env \<Rightarrow> jsstring \<Rightarrow> jsstring \<Rightarrow> store \<Rightarrow> jsstring + call" where
  "sendMessage_call JSON_parse e chatId messageText state =
     (case find (\<lambda>c. chat_id c = chatId) (chats state) of
        None \<Rightarrow> Inl (js ''Chat not found'')
      | Some chat \<Rightarrow>
          let userMessage = \<lparr>text = messageText, sender = js ''user'',
                             timestamp = uuid_user e, isStreaming = None\<rparr>;
              aiMessage = \<lparr>text = [], sender = js ''ai'',
                           timestamp = uuid_ai e, isStreaming = Some True\<rparr>;
              req = request_body chat userMessage messageText
          in case try_block JSON_parse chatId (timestamp aiMessage) (fetch e req) of
               (err, st) \<Rightarrow>
                 Inr \<lparr>request = req,
                      updates =
                        [AddUserMessage chatId userMessage, AddAiMessage chatId aiMessage]
                        @ sets st
                        @ (case err of None \<Rightarrow> [] | Some msg \<Rightarrow> [MarkError chatId (timestamp aiMessage) msg])
                        @ [Finalize chatId (timestamp aiMessage)],
                      caught = err,
                      locals = st\<rparr>)"

text \<open>
  The call run with no other action of the store in between: the result for the
  caller and the state left behind.
\<close>

definition sendMessage ::
  "(jsstring \<Rightarrow> json option) \<Rightarrow> env \<Rightarrow> jsstring \<Rightarrow> jsstring \<Rightarrow> store \<Rightarrow> (jsstring + unit) \<times> store" where
  "sendMessage JSON_parse e chatId messageText state =
     (case sendMessage_call JSON_parse e chatId messageText state of
        Inl err \<Rightarrow> (Inl err, state)
      | Inr c \<Rightarrow> (Inr (), apply_updates (updates c) state))"

subsection \<open>Concrete inputs\<close>

text \<open>
  A parser known on finitely many lines, for running the model on concrete streams:
  it parses the lines of the table and throws on every other.
\<close>

definition parse_table :: "(jsstring \<times> json) list \<Rightarrow> jsstring \<Rightarrow> json option" where
  "parse_table table line = map_of table line"

text \<open>The record \<open>{"message":{"content":s}}\<close>, parsed.\<close>

definition content_record :: "jsstring \<Rightarrow> json" where
  "content_record s = JObj [(js ''message'', JObj [(js ''content'', JStr s)])]"

definition example_chat :: chat where
  "example_chat =
     \<lparr>chat_id = js ''c1'', title = js ''New Chat'', model = js ''llama3'',
      messages = [], createdAt = js ''2025-01-01T00:00:00.000Z''\<rparr>"

definition example_store :: store where
  "example_store = \<lparr>chats = [example_chat], currentChatId = Some (js ''c1'')\<rparr>"

section \<open>Properties\<close>

subsection \<open>The shape of the updates of one call\<close>

definition deltas_of :: "jsstring \<Rightarrow> jsstring \<Rightarrow> update list \<Rightarrow> bool" where
  "deltas_of chatId ts us \<longleftrightarrow> (\<forall>u\<in>set us. \<exists>x. u = Delta chatId ts x)"

lemma find_None_iff_id:
  "find (\<lambda>c. chat_id c = chatId) cs = None \<longleftrightarrow> (\<forall>c\<in>set cs. chat_id c \<noteq> chatId)"
  by (auto simp: find_None_iff)

lemma sets_process_line:
  "\<exists>ds. sets (process_line P c t l st) = sets st @ ds \<and> deltas_of c t ds"
  by (auto simp: process_line_def Let_def deltas_of_def split: option.split)

lemma sets_drain:
  "\<exists>ds. sets (drain P c t st) = sets st @ ds \<and> deltas_of c t ds"
proof (induction P c t st rule: drain.induct)
  case (1 P c t st)
  show ?case
  proof (cases "indexOf (buffer st) 0xA")
    case None
    then show ?thesis by (subst drain.simps) (simp add: deltas_of_def)
  next
    case (Some b)
    let ?st1 = "process_line P c t (take b (buffer st)) (st\<lparr>buffer := drop (b + 1) (buffer st)\<rparr>)"
    from 1[OF Some] obtain ds where ds: "sets (drain P c t ?st1) = sets ?st1 @ ds" "deltas_of c t ds"
      by blast
    obtain ds0 where ds0: "sets ?st1 = sets st @ ds0" "deltas_of c t ds0"
      using sets_process_line[of P c t "take b (buffer st)" "st\<lparr>buffer := drop (b + 1) (buffer st)\<rparr>"]
      by auto
    have "drain P c t st = drain P c t ?st1"
      using Some by (subst drain.simps) simp
    with ds ds0 show ?thesis
      by (intro exI[of _ "ds0 @ ds"]) (auto simp: deltas_of_def)
  qed
qed

lemma sets_feed:
  "\<exists>ds. sets (feed P c t chunk st) = sets st @ ds \<and> deltas_of c t ds"
proof -
  obtain d out where "decode (decoder st) chunk = (d, out)"
    by (cases "decode (decoder st) chunk")
  then show ?thesis
    using sets_drain[of P c t "st\<lparr>decoder := d, buffer := buffer st @ out\<rparr>"]
    by (simp add: feed_def)
qed

lemma sets_read_loop:
  "read_loop P c t reads st = (err, st') \<Longrightarrow> \<exists>ds. sets st' = sets st @ ds \<and> deltas_of c t ds"
proof (induction reads arbitrary: st)
  case Nil
  then show ?case by (simp add: deltas_of_def)
next
  case (Cons r reads)
  show ?case
  proof (cases r)
    case (Chunk chunk)
    from Cons.prems Chunk have "read_loop P c t reads (feed P c t chunk st) = (err, st')" by simp
    from Cons.IH[OF this] obtain ds
      where ds: "sets st' = sets (feed P c t chunk st) @ ds" "deltas_of c t ds" by blast
    obtain ds0 where "sets (feed P c t chunk st) = sets st @ ds0" "deltas_of c t ds0"
      using sets_feed by blast
    with ds show ?thesis by (intro exI[of _ "ds0 @ ds"]) (auto simp: deltas_of_def)
  next
    case (ReadRejected msg)
    with Cons.prems show ?thesis by (simp add: deltas_of_def)
  qed
qed

lemma sets_final_buffer [simp]: "sets (final_buffer P st) = sets st"
  by (simp add: final_buffer_def split: option.split)

lemma sets_try_block:
  "try_block P c t resp = (err, st) \<Longrightarrow> deltas_of c t (sets st)"
  by (auto simp: try_block_def initial_stream_def deltas_of_def
      split: response.splits prod.splits option.splits dest!: sets_read_loop)

subsection \<open>An unknown chat\<close>

text \<open>
  C8. When no chat of the store has the id \<open>chatId\<close>, \<open>sendMessage(chatId, text)\<close>
  throws the error "Chat not found" before any \<open>set\<close> call: the call fails and the
  state, with the chats list and every message list, is the state before the call.
\<close>

theorem sendMessage_unknown_chat:
  assumes "\<forall>c\<in>set (chats state). chat_id c \<noteq> chatId"
  shows "sendMessage_call JSON_parse e chatId messageText state = Inl (js ''Chat not found'')
       \<and> sendMessage JSON_parse e chatId messageText state = (Inl (js ''Chat not found''), state)"
  using assms by (simp add: sendMessage_def sendMessage_call_def find_None_iff_id[THEN iffD2])

theorem sendMessage_unknown_chat_witness:
  "sendMessage_call (\<lambda>line. None)
        \<lparr>uuid_user = js ''u1'', uuid_ai = js ''u2'', fetch = (\<lambda>r. NotOk)\<rparr>
        (js ''c2'') (js ''hi'') example_store = Inl (js ''Chat not found'')
   \<and> sendMessage (\<lambda>line. None)
        \<lparr>uuid_user = js ''u1'', uuid_ai = js ''u2'', fetch = (\<lambda>r. NotOk)\<rparr>
        (js ''c2'') (js ''hi'') example_store = (Inl (js ''Chat not found''), example_store)"
proof -
  have h: "\<forall>c\<in>set (chats example_store). chat_id c \<noteq> js ''c2''"
    by (simp add: example_store_def example_chat_def js_def)
  show ?thesis
    using sendMessage_unknown_chat[OF h] by simp
qed

subsection \<open>Finalize\<close>

fun is_Finalize :: "update \<Rightarrow> bool" where
  "is_Finalize (Finalize chatId ts) = True"
| "is_Finalize _ = False"

lemma deltas_not_Finalize: "deltas_of c t us \<Longrightarrow> filter is_Finalize us = []"
  by (induction us) (auto simp: deltas_of_def)

lemma find_Some_ex:
  "chatId \<in> chat_id ` set cs \<Longrightarrow> \<exists>ch. find (\<lambda>c. chat_id c = chatId) cs = Some ch"
  by (cases "find (\<lambda>c. chat_id c = chatId) cs") (auto simp: find_None_iff)

lemma apply_updates_snoc: "apply_updates (us @ [u]) s = apply_update u (apply_updates us s)"
  by (simp add: apply_updates_def)

lemma chats_map_messages:
  "chats (map_messages chatId f s) =
     map (\<lambda>chat. if chat_id chat = chatId then chat\<lparr>messages := f (messages chat)\<rparr> else chat) (chats s)"
  by (simp add: map_messages_def)

lemma in_chats_map_messages:
  assumes "ch \<in> set (chats (map_messages chatId f s))" and "chat_id ch = chatId"
  shows "\<exists>c0\<in>set (chats s). chat_id c0 = chatId \<and> ch = c0\<lparr>messages := f (messages c0)\<rparr>"
proof -
  from assms(1) obtain c0 where c0: "c0 \<in> set (chats s)"
    and eq: "ch = (if chat_id c0 = chatId then c0\<lparr>messages := f (messages c0)\<rparr> else c0)"
    unfolding chats_map_messages by auto
  show ?thesis
  proof (cases "chat_id c0 = chatId")
    case True
    with c0 eq show ?thesis by auto
  next
    case False
    with eq assms(2) show ?thesis by simp
  qed
qed

lemma Finalize_clears:
  assumes "ch \<in> set (chats (apply_update (Finalize chatId ts) s))" and "chat_id ch = chatId"
    and "m \<in> set (messages ch)" and "timestamp m = ts"
  shows "isStreaming m = Some False"
proof -
  let ?f = "\<lambda>msg. if timestamp msg = ts then msg\<lparr>isStreaming := Some False\<rparr> else msg"
  from assms(1,2) obtain c0 where "ch = c0\<lparr>messages := map ?f (messages c0)\<rparr>"
    using in_chats_map_messages[of ch chatId "map ?f" s] by auto
  with assms(3) have "m \<in> ?f ` set (messages c0)" by simp
  then obtain m0 where "m = ?f m0" by blast
  with assms(4) show ?thesis by (cases "timestamp m0 = ts") auto
qed

text \<open>
  C1. Every call of \<open>sendMessage\<close> on a chat of the store appends the placeholder and
  makes its \<open>set\<close> calls in an order in which the finalize step (the \<open>set\<close> after the
  \<open>try\<close> statement, which clears \<open>isStreaming\<close> on the placeholder) occurs exactly
  once and is the last one, whatever \<open>fetch\<close> and the reads of the body do: reject,
  answer with a status that is not ok, fail in the middle of the stream, or end.
  Run with no other action in between, the call leaves \<open>isStreaming = false\<close> on
  every message of the chat that carries the placeholder's timestamp.
\<close>

theorem finalize_runs_once_at_the_end:
  assumes "chatId \<in> chat_id ` set (chats state)"
  shows "\<exists>c. sendMessage_call JSON_parse e chatId messageText state = Inr c
           \<and> filter is_Finalize (updates c) = [Finalize chatId (uuid_ai e)]
           \<and> last (updates c) = Finalize chatId (uuid_ai e)
           \<and> sendMessage JSON_parse e chatId messageText state = (Inr (), apply_updates (updates c) state)
           \<and> (\<forall>ch\<in>set (chats (apply_updates (updates c) state)). chat_id ch = chatId \<longrightarrow>
                 (\<forall>m\<in>set (messages ch). timestamp m = uuid_ai e \<longrightarrow> isStreaming m = Some False))"
proof -
  from assms obtain ch where ch: "find (\<lambda>c. chat_id c = chatId) (chats state) = Some ch"
    using find_Some_ex by blast
  define req where "req = request_body ch \<lparr>text = messageText, sender = js ''user'',
                             timestamp = uuid_user e, isStreaming = None\<rparr> messageText"
  obtain err st where tb: "try_block JSON_parse chatId (uuid_ai e) (fetch e req) = (err, st)"
    by (cases "try_block JSON_parse chatId (uuid_ai e) (fetch e req)")
  then have d: "filter is_Finalize (sets st) = []"
    using sets_try_block deltas_not_Finalize by blast
  obtain c where c: "sendMessage_call JSON_parse e chatId messageText state = Inr c"
    and u: "updates c = ([AddUserMessage chatId \<lparr>text = messageText, sender = js ''user'',
                             timestamp = uuid_user e, isStreaming = None\<rparr>,
                AddAiMessage chatId \<lparr>text = [], sender = js ''ai'',
                           timestamp = uuid_ai e, isStreaming = Some True\<rparr>]
                        @ sets st
                        @ (case err of None \<Rightarrow> [] | Some msg \<Rightarrow> [MarkError chatId (uuid_ai e) msg]))
                        @ [Finalize chatId (uuid_ai e)]"
    using ch tb by (simp add: sendMessage_call_def Let_def req_def cong: option.case_cong)
  have 1: "filter is_Finalize (updates c) = [Finalize chatId (uuid_ai e)]"
    unfolding u using d by (simp split: option.split)
  have 2: "last (updates c) = Finalize chatId (uuid_ai e)"
    unfolding u by simp
  have 3: "sendMessage JSON_parse e chatId messageText state = (Inr (), apply_updates (updates c) state)"
    using c by (simp add: sendMessage_def)
  have 4: "\<forall>ch\<in>set (chats (apply_updates (updates c) state)). chat_id ch = chatId \<longrightarrow>
                 (\<forall>m\<in>set (messages ch). timestamp m = uuid_ai e \<longrightarrow> isStreaming m = Some False)"
    unfolding u apply_updates_snoc using Finalize_clears by blast
  from c 1 2 3 4 show ?thesis by blast
qed

theorem finalize_runs_once_at_the_end_witness:
  "\<exists>c. sendMessage_call (\<lambda>line. None)
          \<lparr>uuid_user = js ''u1'', uuid_ai = js ''u2'',
           fetch = (\<lambda>r. Body [Chunk (bytes ''x''), ReadRejected (js ''network error'')])\<rparr>
          (js ''c1'') (js ''hi'') example_store = Inr c
       \<and> filter is_Finalize (updates c) = [Finalize (js ''c1'') (js ''u2'')]
       \<and> last (updates c) = Finalize (js ''c1'') (js ''u2'')"
proof -
  have h: "js ''c1'' \<in> chat_id ` set (chats example_store)"
    by (simp add: example_store_def example_chat_def)
  show ?thesis
    using finalize_runs_once_at_the_end[OF h, of "\<lambda>line. None"
        "\<lparr>uuid_user = js ''u1'', uuid_ai = js ''u2'',
          fetch = (\<lambda>r. Body [Chunk (bytes ''x''), ReadRejected (js ''network error'')])\<rparr>"
        "js ''hi''"]
    by auto
qed

subsection \<open>The request\<close>

definition repeated_store :: store where
  "repeated_store =
     \<lparr>chats = [example_chat\<lparr>messages :=
         [\<lparr>text = js ''hi'', sender = js ''user'', timestamp = js ''t1'', isStreaming = None\<rparr>,
          \<lparr>text = js ''Hello!'', sender = js ''ai'', timestamp = js ''t2'',
            isStreaming = Some False\<rparr>]\<rparr>],
      currentChatId = Some (js ''c1'')\<rparr>"

lemma filter_fresh: "ts \<notin> timestamp ` set ms \<Longrightarrow> filter (\<lambda>m. timestamp m \<noteq> ts) ms = ms"
  by (induction ms) auto

text \<open>
  C5. For \<open>sendMessage(chatId, text)\<close> on a chat of the store (the uuid drawn for
  the new user message being none of the chat's timestamps, as a fresh uuid is), the
  request names the chat's model, asks for a stream, and its messages are the whole
  history from before the call, in order, with the role "user" for the sender "user"
  and "assistant" for every other sender, followed by one message of role "user"
  with the new text. The message just appended to the chat is not replayed with the
  history: the request has one message for each message the chat has after the
  append, the new one once, as the last turn, so the new text occurs once more than
  among the earlier messages.
\<close>

theorem request_replays_history:
  assumes "find (\<lambda>c. chat_id c = chatId) (chats state) = Some ch"
    and "uuid_user e \<notin> timestamp ` set (messages ch)"
  shows "\<exists>c. sendMessage_call JSON_parse e chatId messageText state = Inr c
           \<and> req_model (request c) = model ch
           \<and> req_stream (request c)
           \<and> req_messages (request c) =
                map (\<lambda>m. \<lparr>role = (if sender m = js ''user'' then js ''user'' else js ''assistant''),
                            content = text m\<rparr>) (messages ch)
                @ [\<lparr>role = js ''user'', content = messageText\<rparr>]
           \<and> req_messages (request c) =
                map (\<lambda>m. \<lparr>role = (if sender m = js ''user'' then js ''user'' else js ''assistant''),
                            content = text m\<rparr>)
                    (messages ch @ [\<lparr>text = messageText, sender = js ''user'',
                                     timestamp = uuid_user e, isStreaming = None\<rparr>])
           \<and> last (req_messages (request c)) = \<lparr>role = js ''user'', content = messageText\<rparr>
           \<and> length (req_messages (request c)) = Suc (length (messages ch))
           \<and> length (filter (\<lambda>w. content w = messageText) (req_messages (request c))) =
                Suc (length (filter (\<lambda>m. text m = messageText) (messages ch)))"
proof -
  let ?um = "\<lparr>text = messageText, sender = js ''user'', timestamp = uuid_user e, isStreaming = None\<rparr>"
  obtain err st where tb:
    "try_block JSON_parse chatId (uuid_ai e) (fetch e (request_body ch ?um messageText)) = (err, st)"
    by (cases "try_block JSON_parse chatId (uuid_ai e) (fetch e (request_body ch ?um messageText))")
  obtain c where c: "sendMessage_call JSON_parse e chatId messageText state = Inr c"
    and r: "request c = request_body ch ?um messageText"
    using assms(1) tb by (simp add: sendMessage_call_def Let_def)
  have f: "filter (\<lambda>m. timestamp m \<noteq> timestamp ?um) (messages ch) = messages ch"
    using assms(2) by (simp add: filter_fresh)
  have m: "req_messages (request c) =
                map (\<lambda>m. \<lparr>role = (if sender m = js ''user'' then js ''user'' else js ''assistant''),
                            content = text m\<rparr>) (messages ch)
                @ [\<lparr>role = js ''user'', content = messageText\<rparr>]"
    unfolding r request_body_def using f by simp
  have n: "length (filter (\<lambda>w. content w = messageText) (req_messages (request c))) =
                Suc (length (filter (\<lambda>m. text m = messageText) (messages ch)))"
    unfolding m by (simp add: filter_map comp_def)
  have a: "req_messages (request c) =
                map (\<lambda>m. \<lparr>role = (if sender m = js ''user'' then js ''user'' else js ''assistant''),
                            content = text m\<rparr>) (messages ch @ [?um])"
    unfolding m by simp
  have l: "last (req_messages (request c)) = \<lparr>role = js ''user'', content = messageText\<rparr>"
    unfolding m by simp
  have k: "length (req_messages (request c)) = Suc (length (messages ch))"
    unfolding m by simp
  have "req_model (request c) = model ch" "req_stream (request c)"
    by (simp_all add: r request_body_def)
  with c m a l k n show ?thesis by blast
qed

theorem request_replays_history_witness:
  "\<exists>c. sendMessage_call (\<lambda>line. None)
          \<lparr>uuid_user = js ''u1'', uuid_ai = js ''u2'', fetch = (\<lambda>r. NotOk)\<rparr>
          (js ''c1'') (js ''how are you?'') repeated_store = Inr c
       \<and> req_model (request c) = js ''llama3''
       \<and> req_messages (request c) =
            [\<lparr>role = js ''user'', content = js ''hi''\<rparr>,
             \<lparr>role = js ''assistant'', content = js ''Hello!''\<rparr>,
             \<lparr>role = js ''user'', content = js ''how are you?''\<rparr>]
       \<and> length (filter (\<lambda>w. content w = js ''how are you?'') (req_messages (request c))) = 1"
proof -
  let ?ch = "example_chat\<lparr>messages :=
         [\<lparr>text = js ''hi'', sender = js ''user'', timestamp = js ''t1'', isStreaming = None\<rparr>,
          \<lparr>text = js ''Hello!'', sender = js ''ai'', timestamp = js ''t2'',
            isStreaming = Some False\<rparr>]\<rparr>"
  let ?e = "\<lparr>uuid_user = js ''u1'', uuid_ai = js ''u2'', fetch = (\<lambda>r. NotOk)\<rparr>"
  have h1: "find (\<lambda>c. chat_id c = js ''c1'') (chats repeated_store) = Some ?ch"
    by (simp add: repeated_store_def example_chat_def)
  have h2: "uuid_user ?e \<notin> timestamp ` set (messages ?ch)"
    by (simp add: js_def)
  show ?thesis
    using request_replays_history[OF h1 h2, of "\<lambda>line. None" "js ''how are you?''"]
    by (simp add: example_chat_def js_def) blast
qed

subsection \<open>Lines of the buffer\<close>

lemma indexOf_line: "c \<notin> set l \<Longrightarrow> indexOf (l @ c # rest) c = Some (length l)"
  by (induction l) (auto simp: indexOf_def)

lemma indexOf_None: "c \<notin> set s \<Longrightarrow> indexOf s c = None"
  by (simp add: indexOf_def)

lemma indexOf_Some_split:
  "indexOf s c = Some i \<Longrightarrow> c \<notin> set (take i s) \<and> s = take i s @ c # drop (i + 1) s"
proof -
  assume a: "indexOf s c = Some i"
  then have m: "c \<in> set s" and i: "i = length (takeWhile (\<lambda>x. x \<noteq> c) s)"
    by (auto simp: indexOf_def split: if_splits)
  have t: "take i s = takeWhile (\<lambda>x. x \<noteq> c) s"
    unfolding i by (induction s) auto
  have d: "drop i s = dropWhile (\<lambda>x. x \<noteq> c) s"
    unfolding i by (induction s) auto
  from m have "dropWhile (\<lambda>x. x \<noteq> c) s \<noteq> []" by (auto simp: dropWhile_eq_Nil_conv)
  moreover have "hd (dropWhile (\<lambda>x. x \<noteq> c) s) = c"
    using m hd_dropWhile[of "\<lambda>x. x \<noteq> c" s] by (auto simp: dropWhile_eq_Nil_conv)
  ultimately have "dropWhile (\<lambda>x. x \<noteq> c) s = c # tl (dropWhile (\<lambda>x. x \<noteq> c) s)"
    by (cases "dropWhile (\<lambda>x. x \<noteq> c) s") auto
  then have "drop i s = c # drop (i + 1) s"
    using d by (metis Suc_eq_plus1 drop_Suc tl_drop)
  moreover have "c \<notin> set (take i s)"
    unfolding t by (auto dest: set_takeWhileD)
  ultimately show ?thesis
    by (metis append_take_drop_id)
qed

lemma process_line_buffer_upd:
  "process_line P c t l (st\<lparr>buffer := b\<rparr>) = (process_line P c t l st)\<lparr>buffer := b\<rparr>"
  by (simp add: process_line_def Let_def split: option.split)

lemma process_line_decoder_upd:
  "process_line P c t l (st\<lparr>decoder := d\<rparr>) = (process_line P c t l st)\<lparr>decoder := d\<rparr>"
  by (simp add: process_line_def Let_def split: option.split)

lemma drain_line:
  "0xA \<notin> set l \<Longrightarrow>
   drain P c t (st\<lparr>buffer := l @ 0xA # rest\<rparr>) = drain P c t ((process_line P c t l st)\<lparr>buffer := rest\<rparr>)"
  by (subst drain.simps) (simp add: indexOf_line process_line_buffer_upd)

lemma drain_done: "0xA \<notin> set (buffer st) \<Longrightarrow> drain P c t st = st"
  by (subst drain.simps) (simp add: indexOf_None)

subsection \<open>Records with an empty content\<close>

definition empty_content_line :: jsstring where
  \<open>empty_content_line = js ''{"message":{"content":""},"done":false}''\<close>

definition empty_content_parsed :: json where
  "empty_content_parsed =
     JObj [(js ''message'', JObj [(js ''content'', JStr [])]), (js ''done'', JBool False)]"

text \<open>
  C10. A line that parses to a record whose \<open>message.content\<close> is the empty string
  fails the test \<open>if (parsed.message?.content)\<close>: the loop body leaves \<open>aiText\<close> and
  \<open>tokenCount\<close> as they were and makes no \<open>set\<close> call, so the store, whatever its
  state, is as it was.
\<close>

theorem empty_content_is_no_delta:
  assumes "JSON_parse line = Some parsed"
    and "message_content parsed = Some (Some (JStr []))"
  shows "aiText (process_line JSON_parse chatId aiTimestamp line st) = aiText st
       \<and> tokenCount (process_line JSON_parse chatId aiTimestamp line st) = tokenCount st
       \<and> sets (process_line JSON_parse chatId aiTimestamp line st) = sets st
       \<and> apply_updates (sets (process_line JSON_parse chatId aiTimestamp line st)) state =
           apply_updates (sets st) state"
  using assms by (simp add: process_line_def Let_def)

theorem empty_content_is_no_delta_witness:
  "aiText (process_line (parse_table [(empty_content_line, empty_content_parsed)])
             (js ''c1'') (js ''u2'') empty_content_line
             (initial_stream\<lparr>aiText := js ''He'', tokenCount := Some (1 / 2)\<rparr>)) = js ''He''
   \<and> tokenCount (process_line (parse_table [(empty_content_line, empty_content_parsed)])
             (js ''c1'') (js ''u2'') empty_content_line
             (initial_stream\<lparr>aiText := js ''He'', tokenCount := Some (1 / 2)\<rparr>)) = Some (1 / 2)
   \<and> sets (process_line (parse_table [(empty_content_line, empty_content_parsed)])
             (js ''c1'') (js ''u2'') empty_content_line
             (initial_stream\<lparr>aiText := js ''He'', tokenCount := Some (1 / 2)\<rparr>)) = []"
proof -
  have h1: "parse_table [(empty_content_line, empty_content_parsed)] empty_content_line =
              Some empty_content_parsed"
    by (simp add: parse_table_def)
  have h2: "message_content empty_content_parsed = Some (Some (JStr []))"
    by (simp add: message_content_def empty_content_parsed_def js_def)
  show ?thesis
    using empty_content_is_no_delta[
        where JSON_parse = "parse_table [(empty_content_line, empty_content_parsed)]"
          and line = empty_content_line and parsed = empty_content_parsed
          and chatId = "js ''c1''" and aiTimestamp = "js ''u2''"
          and st = "initial_stream\<lparr>aiText := js ''He'', tokenCount := Some (1 / 2)\<rparr>",
        OF h1 h2]
    by (simp add: initial_stream_def)
qed

subsection \<open>Lines handled one by one\<close>

text \<open>
  What the loop leaves for the store and the estimator: \<open>aiText\<close>, \<open>tokenCount\<close> and
  the \<open>set\<close> calls. \<open>process_lines\<close> runs the loop body on a list of lines.
\<close>

definition observable :: "stream_state \<Rightarrow> jsstring \<times> rat option \<times> update list" where
  "observable st = (aiText st, tokenCount st, sets st)"


lemma observable_buffer_upd [simp]: "observable (st\<lparr>buffer := b\<rparr>) = observable st"
  by (simp add: observable_def)


definition he_line :: jsstring where
  \<open>he_line = js ''{"message":{"content":"He"}}''\<close>

definition llo_line :: jsstring where
  \<open>llo_line = js ''{"message":{"content":"llo"}}''\<close>

definition hello_parse :: "jsstring \<Rightarrow> json option" where
  "hello_parse = parse_table [(he_line, content_record (js ''He'')), (llo_line, content_record (js ''llo''))]"

subsection \<open>Chunk boundaries\<close>

lemma serialize_append:
  "serialize seen (xs @ ys) =
     (case serialize seen xs of (s1, o1) \<Rightarrow>
        (case serialize s1 ys of (s2, o2) \<Rightarrow> (s2, o1 @ o2)))"
proof (induction xs arbitrary: seen)
  case Nil
  then show ?case by (simp split: prod.split)
next
  case (Cons x xs)
  then show ?case by (simp split: prod.split)
qed

lemma decode_bytes_append:
  "decode_bytes d (xs @ ys) =
     (case decode_bytes d xs of (d1, o1) \<Rightarrow>
        (case decode_bytes d1 ys of (d2, o2) \<Rightarrow> (d2, o1 @ o2)))"
proof (induction xs arbitrary: d)
  case Nil
  then show ?case by (simp split: prod.split)
next
  case (Cons x xs)
  then show ?case by (simp split: prod.split)
qed

lemma utf8_first_bom:
  "utf8_first (d\<lparr>bom_seen := s\<rparr>) b =
     (case utf8_first d b of (d', out) \<Rightarrow> (d'\<lparr>bom_seen := s\<rparr>, out))"
  by (simp add: utf8_first_def)

lemma utf8_reset_bom: "utf8_reset (d\<lparr>bom_seen := s\<rparr>) = (utf8_reset d)\<lparr>bom_seen := s\<rparr>"
  by (simp add: utf8_reset_def)

lemma utf8_handler_bom:
  "utf8_handler (d\<lparr>bom_seen := s\<rparr>) b =
     (case utf8_handler d b of (d', out) \<Rightarrow> (d'\<lparr>bom_seen := s\<rparr>, out))"
  by (simp add: utf8_handler_def utf8_first_def utf8_reset_def Let_def)

lemma decode_bytes_bom:
  "decode_bytes (d\<lparr>bom_seen := s\<rparr>) bs =
     (case decode_bytes d bs of (d', out) \<Rightarrow> (d'\<lparr>bom_seen := s\<rparr>, out))"
proof (induction bs arbitrary: d)
  case Nil
  then show ?case by simp
next
  case (Cons b bs)
  then show ?case by (simp add: utf8_handler_bom split: prod.split)
qed

lemma bom_seen_decode_bytes: "bom_seen (fst (decode_bytes d bs)) = bom_seen d"
proof -
  obtain d' out where a: "decode_bytes d bs = (d', out)" by (cases "decode_bytes d bs")
  with decode_bytes_bom[where d=d and s="bom_seen d" and bs=bs]
  have "d'\<lparr>bom_seen := bom_seen d\<rparr> = d'" by simp
  then have "bom_seen (d'\<lparr>bom_seen := bom_seen d\<rparr>) = bom_seen d'" by simp
  then show ?thesis using a by simp
qed

lemma decode_append:
  "decode d (xs @ ys) =
     (case decode d xs of (d1, o1) \<Rightarrow>
        (case decode d1 ys of (d2, o2) \<Rightarrow> (d2, o1 @ o2)))"
proof -
  obtain d1 c1 where a: "decode_bytes d xs = (d1, c1)" by (cases "decode_bytes d xs")
  obtain d2 c2 where b: "decode_bytes d1 ys = (d2, c2)" by (cases "decode_bytes d1 ys")
  obtain s1 o1 where c: "serialize (bom_seen d) c1 = (s1, o1)" by (cases "serialize (bom_seen d) c1")
  obtain s2 o2 where e: "serialize s1 c2 = (s2, o2)" by (cases "serialize s1 c2")
  have b1: "bom_seen d1 = bom_seen d" using bom_seen_decode_bytes[of d xs] a by simp
  have b2: "bom_seen d2 = bom_seen d1" using bom_seen_decode_bytes[of d1 ys] b by simp
  have 1: "decode d xs = (d1\<lparr>bom_seen := s1\<rparr>, o1)"
    using a c b1 by (simp add: decode_def)
  have 2: "decode (d1\<lparr>bom_seen := s1\<rparr>) ys = (d2\<lparr>bom_seen := s2\<rparr>, o2)"
    using b e by (simp add: decode_def decode_bytes_bom)
  have 3: "decode d (xs @ ys) = (d2\<lparr>bom_seen := s2\<rparr>, o1 @ o2)"
    using a b c e b1 b2 by (simp add: decode_def decode_bytes_append serialize_append)
  show ?thesis by (simp add: 1 2 3)
qed

lemma decoder_process_line [simp]: "decoder (process_line P c t l st) = decoder st"
  by (simp add: process_line_def Let_def split: option.split)

lemma buffer_decoder_upd:
  "st\<lparr>buffer := b, decoder := d\<rparr> = st\<lparr>decoder := d, buffer := (b :: jsstring)\<rparr>"
  by (cases st) simp

lemma drain_decoder_upd:
  "drain P c t (st\<lparr>decoder := d\<rparr>) = (drain P c t st)\<lparr>decoder := d\<rparr>"
proof (induction P c t st rule: drain.induct)
  case (1 P c t st)
  show ?case
  proof (cases "indexOf (buffer st) 0xA")
    case None
    then show ?thesis by (simp add: drain.simps[of P c t st] drain.simps[of P c t "st\<lparr>decoder := d\<rparr>"])
  next
    case (Some b)
    from 1[OF Some] Some show ?thesis
      by (simp add: drain.simps[of P c t st] drain.simps[of P c t "st\<lparr>decoder := d\<rparr>"]
          process_line_decoder_upd process_line_buffer_upd buffer_decoder_upd)
  qed
qed

lemma decoder_drain [simp]: "decoder (drain P c t st) = decoder st"
proof (induction P c t st rule: drain.induct)
  case (1 P c t st)
  show ?case
  proof (cases "indexOf (buffer st) 0xA")
    case None
    then show ?thesis by (simp add: drain.simps[of P c t st])
  next
    case (Some b)
    from 1[OF Some] Some show ?thesis
      by (simp add: drain.simps[of P c t st])
  qed
qed

lemma buffer_drain: "0xA \<notin> set (buffer (drain P c t st))"
proof (induction P c t st rule: drain.induct)
  case (1 P c t st)
  show ?case
  proof (cases "indexOf (buffer st) 0xA")
    case None
    then show ?thesis by (simp add: drain.simps[of P c t st] indexOf_def split: if_splits)
  next
    case (Some b)
    from 1[OF Some] Some show ?thesis
      by (simp add: drain.simps[of P c t st])
  qed
qed

lemma drain_append:
  "drain P c t (st\<lparr>buffer := buffer st @ y\<rparr>) =
     drain P c t ((drain P c t st)\<lparr>buffer := buffer (drain P c t st) @ y\<rparr>)"
proof (induction P c t st rule: drain.induct)
  case (1 P c t st)
  show ?case
  proof (cases "indexOf (buffer st) 0xA")
    case None
    then show ?thesis by (simp add: drain.simps[of P c t st])
  next
    case (Some b)
    let ?l = "take b (buffer st)"
    let ?r = "drop (b + 1) (buffer st)"
    let ?st1 = "process_line P c t ?l (st\<lparr>buffer := ?r\<rparr>)"
    from indexOf_Some_split[OF Some] have nl: "0xA \<notin> set ?l" and sp: "buffer st = ?l @ 0xA # ?r"
      by auto
    have a: "drain P c t st = drain P c t ?st1"
      using Some by (simp add: drain.simps[of P c t st])
    have "st\<lparr>buffer := buffer st @ y\<rparr> = st\<lparr>buffer := ?l @ 0xA # (?r @ y)\<rparr>"
      using sp by (metis append_Cons append_assoc)
    then have "drain P c t (st\<lparr>buffer := buffer st @ y\<rparr>) =
          drain P c t ((process_line P c t ?l st)\<lparr>buffer := ?r @ y\<rparr>)"
      using drain_line[OF nl, where st=st and rest="?r @ y" and P=P and c=c and t=t] by simp
    also have "(process_line P c t ?l st)\<lparr>buffer := ?r @ y\<rparr> = ?st1\<lparr>buffer := buffer ?st1 @ y\<rparr>"
      by (simp add: process_line_buffer_upd)
    also have "drain P c t (?st1\<lparr>buffer := buffer ?st1 @ y\<rparr>) =
       drain P c t ((drain P c t ?st1)\<lparr>buffer := buffer (drain P c t ?st1) @ y\<rparr>)"
      using 1[OF Some] by simp
    finally show ?thesis using a by simp
  qed
qed

lemma feed_append:
  "feed P c t (xs @ ys) st = feed P c t ys (feed P c t xs st)"
proof -
  obtain d1 o1 where a: "decode (decoder st) xs = (d1, o1)" by (cases "decode (decoder st) xs")
  obtain d2 o2 where b: "decode d1 ys = (d2, o2)" by (cases "decode d1 ys")
  have ab: "decode (decoder st) (xs @ ys) = (d2, o1 @ o2)"
    using a b by (simp add: decode_append)
  let ?s1 = "drain P c t (st\<lparr>decoder := d1, buffer := buffer st @ o1\<rparr>)"
  have 1: "feed P c t xs st = ?s1" using a by (simp add: feed_def)
  have 2: "feed P c t ys ?s1 = drain P c t (?s1\<lparr>decoder := d2, buffer := buffer ?s1 @ o2\<rparr>)"
    using b by (simp add: feed_def)
  have "feed P c t (xs @ ys) st = drain P c t (st\<lparr>decoder := d2, buffer := (buffer st @ o1) @ o2\<rparr>)"
    using ab by (simp add: feed_def)
  also have "\<dots> = (drain P c t ((st\<lparr>decoder := d1, buffer := buffer st @ o1\<rparr>)\<lparr>buffer :=
        buffer (st\<lparr>decoder := d1, buffer := buffer st @ o1\<rparr>) @ o2\<rparr>))\<lparr>decoder := d2\<rparr>"
    by (simp add: drain_decoder_upd[symmetric] buffer_decoder_upd)
  also have "\<dots> = (drain P c t (?s1\<lparr>buffer := buffer ?s1 @ o2\<rparr>))\<lparr>decoder := d2\<rparr>"
    by (subst drain_append) simp
  also have "\<dots> = drain P c t (?s1\<lparr>decoder := d2, buffer := buffer ?s1 @ o2\<rparr>)"
    by (simp add: drain_decoder_upd[symmetric] buffer_decoder_upd)
  finally show ?thesis using 1 2 by simp
qed

lemma read_loop_chunks:
  "read_loop P c t (map Chunk cs) st = (None, foldl (\<lambda>s chunk. feed P c t chunk s) st cs)"
  by (induction cs arbitrary: st) simp_all

lemma decode_Nil: "decode d [] = (d, [])"
  by (simp add: decode_def)

lemma feed_Nil: "0xA \<notin> set (buffer st) \<Longrightarrow> feed P c t [] st = st"
  by (simp add: feed_def decode_Nil drain_done)

lemma buffer_feed: "0xA \<notin> set (buffer (feed P c t chunk st))"
  by (simp add: feed_def buffer_drain split: prod.split)

lemma foldl_feed:
  "0xA \<notin> set (buffer st) \<Longrightarrow>
   foldl (\<lambda>s chunk. feed P c t chunk s) st cs = feed P c t (concat cs) st"
proof (induction cs arbitrary: st)
  case Nil
  then show ?case by (simp add: feed_Nil)
next
  case (Cons x cs)
  have "foldl (\<lambda>s chunk. feed P c t chunk s) (feed P c t x st) cs =
        feed P c t (concat cs) (feed P c t x st)"
    by (rule Cons.IH) (rule buffer_feed)
  then show ?case by (simp add: feed_append)
qed

text \<open>
  Facts for running the model on concrete bytes: the bit operations of the decoder as
  arithmetic, and the defining equations of the decoder and of the loop.
\<close>

lemma and_low: "(b::nat) AND 0x3F = b mod 64" "(b::nat) AND 0x1F = b mod 32" "(b::nat) AND 0xF = b mod 16" "(b::nat) AND 0x7 = b mod 8"
proof -
  have "(b::nat) AND mask 6 = b mod 2 ^ 6" by (simp only: take_bit_eq_mask[symmetric] take_bit_eq_mod)
  then show "(b::nat) AND 0x3F = b mod 64" by (simp add: mask_eq_exp_minus_1)
  have "(b::nat) AND mask 5 = b mod 2 ^ 5" by (simp only: take_bit_eq_mask[symmetric] take_bit_eq_mod)
  then show "(b::nat) AND 0x1F = b mod 32" by (simp add: mask_eq_exp_minus_1)
  have "(b::nat) AND mask 4 = b mod 2 ^ 4" by (simp only: take_bit_eq_mask[symmetric] take_bit_eq_mod)
  then show "(b::nat) AND 0xF = b mod 16" by (simp add: mask_eq_exp_minus_1)
  have "(b::nat) AND mask 3 = b mod 2 ^ 3" by (simp only: take_bit_eq_mask[symmetric] take_bit_eq_mod)
  then show "(b::nat) AND 0x7 = b mod 8" by (simp add: mask_eq_exp_minus_1)
qed

lemma shift_or: "push_bit 6 (cp::nat) OR (b AND 0x3F) = cp * 64 + b mod 64"
proof -
  have "(b::nat) AND 0x3F = take_bit 6 b"
    by (simp add: take_bit_eq_mask mask_eq_exp_minus_1)
  moreover have "push_bit 6 cp OR take_bit 6 b = push_bit 6 cp + take_bit 6 b"
    by (rule disjunctive_add_eq_or[symmetric]) (simp add: bit_eq_iff bit_and_iff bit_push_bit_iff bit_take_bit_iff)
  ultimately show ?thesis by (simp add: push_bit_eq_mult take_bit_eq_mod)
qed


lemmas decode_eval = decode_def decode_bytes.simps utf8_handler_def utf8_first_def utf8_reset_def
  serialize.simps utf16_def new_TextDecoder_def Let_def and_low shift_or

lemmas loop_eval = read_loop.simps feed_def drain.simps indexOf_def process_line_def final_buffer_def
  trim_def white_space_def initial_stream_def

text \<open>
  C7. Two sequences of chunks that make up the same bytes leave the reading loop in
  the same state: the same lines were found complete and not blank, in the same
  order (\<open>parsed_lines\<close>), hence the same \<open>aiText\<close> and the same \<open>set\<close> calls; the
  same rest stays in the buffer and the same bytes of an unfinished character in the
  decoder. The decoder is fed with \<open>stream: true\<close>, so a character whose bytes are
  split between two chunks is decoded as in one chunk.
\<close>

theorem chunk_boundaries_do_not_matter:
  assumes "concat chunks1 = concat chunks2"
  shows "read_loop JSON_parse chatId aiTimestamp (map Chunk chunks1) initial_stream =
         read_loop JSON_parse chatId aiTimestamp (map Chunk chunks2) initial_stream
       \<and> parsed_lines (snd (read_loop JSON_parse chatId aiTimestamp (map Chunk chunks1) initial_stream)) =
         parsed_lines (snd (read_loop JSON_parse chatId aiTimestamp (map Chunk chunks2) initial_stream))"
proof -
  have "0xA \<notin> set (buffer initial_stream)" by (simp add: initial_stream_def)
  then show ?thesis using assms by (simp add: read_loop_chunks foldl_feed)
qed

theorem chunk_boundaries_do_not_matter_witness:
  "parsed_lines (snd (read_loop (\<lambda>line. None) (js ''c1'') (js ''u2'')
      (map Chunk [[0x22, 0xC3], [0xA9, 0x22], [], [0xA, 0x7B]]) initial_stream)) =
   parsed_lines (snd (read_loop (\<lambda>line. None) (js ''c1'') (js ''u2'')
      (map Chunk [[0x22, 0xC3, 0xA9, 0x22, 0xA, 0x7B]]) initial_stream))
   \<and> parsed_lines (snd (read_loop (\<lambda>line. None) (js ''c1'') (js ''u2'')
      (map Chunk [[0x22, 0xC3, 0xA9, 0x22, 0xA, 0x7B]]) initial_stream)) = [[0x22, 0xE9, 0x22]]"
proof -
  have h: "concat [[0x22, 0xC3], [0xA9, 0x22], [], [0xA, 0x7B]] =
           concat [[0x22, 0xC3, 0xA9, 0x22, 0xA, 0x7B :: byte]]"
    by simp
  have e: "parsed_lines (snd (read_loop (\<lambda>line. None) (js ''c1'') (js ''u2'')
        (map Chunk [[0x22, 0xC3, 0xA9, 0x22, 0xA, 0x7B]]) initial_stream)) = [[0x22, 0xE9, 0x22]]"
    by (simp add: decode_eval loop_eval)
  show ?thesis
    using chunk_boundaries_do_not_matter[OF h, of "\<lambda>line. None" "js ''c1''" "js ''u2''"] e
    by simp
qed

subsection \<open>A stream of two records\<close>

definition hello_bytes :: "byte list" where
  \<open>hello_bytes = bytes ''{"message":{"content":"He"}}'' @ [0xA]
                 @ bytes ''{"message":{"content":"llo"}}'' @ [0xA]\<close>

lemma map_messages_comp:
  "map_messages c f (map_messages c g s) = map_messages c (\<lambda>ms. f (g ms)) s"
  by (simp add: map_messages_def comp_def)

lemma feed_hello:
  assumes "JSON_parse he_line = Some (content_record (js ''He''))"
    and "JSON_parse llo_line = Some (content_record (js ''llo''))"
  shows "feed JSON_parse chatId ts hello_bytes initial_stream =
     initial_stream\<lparr>decoder := new_TextDecoder\<lparr>bom_seen := True\<rparr>,
        aiText := js ''Hello'', tokenCount := Some (5 / 4),
        sets := [Delta chatId ts (js ''He''), Delta chatId ts (js ''Hello'')],
        parsed_lines := [he_line, llo_line]\<rparr>"
  using assms
  by (simp add: hello_bytes_def bytes_def he_line_def llo_line_def js_def content_record_def
      message_content_def add_tokens_def decode_eval loop_eval)


lemma chats_apply_hello:
  "apply_updates [AddUserMessage c um, AddAiMessage c am, Delta c ts x1, Delta c ts x2, Finalize c ts] s =
   map_messages c (\<lambda>ms.
     map (\<lambda>msg. if timestamp msg = ts then msg\<lparr>isStreaming := Some False\<rparr> else msg)
       (map (\<lambda>msg. if timestamp msg = ts then msg\<lparr>text := x2\<rparr> else msg)
         (map (\<lambda>msg. if timestamp msg = ts then msg\<lparr>text := x1\<rparr> else msg)
           ((ms @ [um]) @ [am])))) s"
  by (simp add: apply_updates_def map_messages_comp)

lemma find_Some_mem: "find p xs = Some x \<Longrightarrow> x \<in> set xs \<and> p x"
  by (induction xs) (auto split: if_splits)

lemma map_messages_keeps_chat:
  assumes "ch \<in> set (chats s)" and "chat_id ch = c"
  shows "\<exists>ch'\<in>set (chats (map_messages c f s)). chat_id ch' = c"
proof (rule bexI[of _ "ch\<lparr>messages := f (messages ch)\<rparr>"])
  show "chat_id (ch\<lparr>messages := f (messages ch)\<rparr>) = c" using assms(2) by simp
  have "(\<lambda>chat. if chat_id chat = c then chat\<lparr>messages := f (messages chat)\<rparr> else chat) ch
        \<in> set (chats (map_messages c f s))"
    unfolding chats_map_messages set_map using assms(1) by (rule imageI)
  then show "ch\<lparr>messages := f (messages ch)\<rparr> \<in> set (chats (map_messages c f s))"
    using assms(2) by simp
qed

text \<open>
  C2. The body of the response is the two lines \<open>{"message":{"content":"He"}}\<close> and
  \<open>{"message":{"content":"llo"}}\<close>, each ended by a newline, in chunks cut anywhere,
  and then ends; \<open>JSON.parse\<close> reads the two lines as the records they are. Run with
  no other action in between, \<open>sendMessage\<close> on a chat of the store returns
  normally, and the last message of the chat is the placeholder with the text
  "Hello" and \<open>isStreaming = false\<close>.
\<close>

theorem hello_stream:
  assumes "find (\<lambda>c. chat_id c = chatId) (chats state) = Some ch"
    and "JSON_parse he_line = Some (content_record (js ''He''))"
    and "JSON_parse llo_line = Some (content_record (js ''llo''))"
    and "concat chunks = hello_bytes"
    and "fetch e = (\<lambda>req. Body (map Chunk chunks))"
  shows "fst (sendMessage JSON_parse e chatId messageText state) = Inr ()
       \<and> (\<exists>ch'\<in>set (chats (snd (sendMessage JSON_parse e chatId messageText state))).
             chat_id ch' = chatId)
       \<and> (\<forall>ch'\<in>set (chats (snd (sendMessage JSON_parse e chatId messageText state))).
             chat_id ch' = chatId \<longrightarrow>
               last (messages ch') =
                 \<lparr>text = js ''Hello'', sender = js ''ai'', timestamp = uuid_ai e,
                  isStreaming = Some False\<rparr>)"
proof -
  let ?ts = "uuid_ai e"
  let ?um = "\<lparr>text = messageText, sender = js ''user'', timestamp = uuid_user e, isStreaming = None\<rparr>"
  let ?am = "\<lparr>text = [], sender = js ''ai'', timestamp = ?ts, isStreaming = Some True\<rparr>"
  let ?F = "\<lambda>ms.
     map (\<lambda>msg. if timestamp msg = ?ts then msg\<lparr>isStreaming := Some False\<rparr> else msg)
       (map (\<lambda>msg. if timestamp msg = ?ts then msg\<lparr>text := js ''Hello''\<rparr> else msg)
         (map (\<lambda>msg. if timestamp msg = ?ts then msg\<lparr>text := js ''He''\<rparr> else msg)
           ((ms @ [?um]) @ [?am])))"
  have "0xA \<notin> set (buffer initial_stream)" by (simp add: initial_stream_def)
  then have rl: "read_loop JSON_parse chatId ?ts (map Chunk chunks) initial_stream =
      (None, feed JSON_parse chatId ?ts hello_bytes initial_stream)"
    using assms(4) by (simp add: read_loop_chunks foldl_feed)
  have tb: "try_block JSON_parse chatId ?ts (Body (map Chunk chunks)) =
      (None, feed JSON_parse chatId ?ts hello_bytes initial_stream)"
  proof -
    have "final_buffer JSON_parse (feed JSON_parse chatId ?ts hello_bytes initial_stream) =
          feed JSON_parse chatId ?ts hello_bytes initial_stream"
      unfolding feed_hello[OF assms(2,3)]
      by (simp add: final_buffer_def initial_stream_def trim_def)
    then show ?thesis by (simp add: try_block_def rl)
  qed
  have call: "sendMessage_call JSON_parse e chatId messageText state =
      Inr \<lparr>request = request_body ch ?um messageText,
           updates = [AddUserMessage chatId ?um, AddAiMessage chatId ?am,
                      Delta chatId ?ts (js ''He''), Delta chatId ?ts (js ''Hello''),
                      Finalize chatId ?ts],
           caught = None,
           locals = feed JSON_parse chatId ?ts hello_bytes initial_stream\<rparr>"
    using assms(1,5) tb
    unfolding feed_hello[OF assms(2,3)]
    by (simp add: sendMessage_call_def Let_def initial_stream_def)
  have final: "sendMessage JSON_parse e chatId messageText state = (Inr (), map_messages chatId ?F state)"
    by (simp add: sendMessage_def call chats_apply_hello)
  have ex: "\<exists>ch'\<in>set (chats (map_messages chatId ?F state)). chat_id ch' = chatId"
  proof -
    from find_Some_mem[OF assms(1)] have a: "ch \<in> set (chats state)" and b: "chat_id ch = chatId"
      by auto
    show ?thesis by (rule map_messages_keeps_chat[OF a b])
  qed
  have all: "\<forall>ch'\<in>set (chats (map_messages chatId ?F state)). chat_id ch' = chatId \<longrightarrow>
      last (messages ch') = \<lparr>text = js ''Hello'', sender = js ''ai'', timestamp = ?ts, isStreaming = Some False\<rparr>"
  proof (intro ballI impI)
    fix ch' assume "ch' \<in> set (chats (map_messages chatId ?F state))" "chat_id ch' = chatId"
    then obtain c0 where "ch' = c0\<lparr>messages := ?F (messages c0)\<rparr>"
      using in_chats_map_messages[of ch' chatId ?F state] by blast
    then show "last (messages ch') = \<lparr>text = js ''Hello'', sender = js ''ai'', timestamp = ?ts, isStreaming = Some False\<rparr>"
      by simp
  qed
  show ?thesis unfolding final using ex all by simp
qed

theorem hello_stream_witness:
  \<open>fst (sendMessage hello_parse
          \<lparr>uuid_user = js ''u1'', uuid_ai = js ''u2'',
           fetch = (\<lambda>req. Body (map Chunk
             [bytes ''{"message":{"content":"He"}}'' @ [0xA] @ bytes ''{"mess'',
              bytes ''age":{"content":"llo"}}'' @ [0xA]]))\<rparr>
          (js ''c1'') (js ''hi'') example_store) = Inr ()
   \<and> (\<exists>ch'\<in>set (chats (snd (sendMessage hello_parse
          \<lparr>uuid_user = js ''u1'', uuid_ai = js ''u2'',
           fetch = (\<lambda>req. Body (map Chunk
             [bytes ''{"message":{"content":"He"}}'' @ [0xA] @ bytes ''{"mess'',
              bytes ''age":{"content":"llo"}}'' @ [0xA]]))\<rparr>
          (js ''c1'') (js ''hi'') example_store))).
         last (messages ch') =
           \<lparr>text = js ''Hello'', sender = js ''ai'', timestamp = js ''u2'',
            isStreaming = Some False\<rparr>)\<close>
proof -
  let ?chunks = \<open>[bytes ''{"message":{"content":"He"}}'' @ [0xA] @ bytes ''{"mess'',
              bytes ''age":{"content":"llo"}}'' @ [0xA]]\<close>
  let ?e = "\<lparr>uuid_user = js ''u1'', uuid_ai = js ''u2'',
           fetch = (\<lambda>req. Body (map Chunk ?chunks))\<rparr>"
  have h1: "find (\<lambda>c. chat_id c = js ''c1'') (chats example_store) = Some example_chat"
    by (simp add: example_store_def example_chat_def)
  have h2: "hello_parse he_line = Some (content_record (js ''He''))"
    by (simp add: hello_parse_def parse_table_def)
  have h3: "hello_parse llo_line = Some (content_record (js ''llo''))"
    by (simp add: hello_parse_def parse_table_def he_line_def llo_line_def js_def)
  have h4: "concat ?chunks = hello_bytes"
    by (simp add: hello_bytes_def bytes_def)
  have h5: "fetch ?e = (\<lambda>req. Body (map Chunk ?chunks))"
    by simp
  from hello_stream[OF h1 h2 h3 h4 h5, of "js ''hi''"] show ?thesis
    by (simp del: not_None_eq) blast
qed

subsection \<open>The rest of the buffer at the end of the stream\<close>

text \<open>
  C4 does not hold of the code. The stream is \<open>{"message":{"content":"He"}}\<close>, a
  newline, and \<open>{"message":{"content":"llo"}}\<close> with no newline after it. The block
  "Process any remaining data in buffer" parses the second record and appends its
  content to the local \<open>aiText\<close>, which ends as "Hello"; but it makes no \<open>set\<close>
  call (the comment "Update state with final content" stands where the call would
  be), so the only delta written to the store is "He", and the assistant message of
  the store ends with the text "He".
\<close>

theorem trailing_line_not_stored:
  \<open>\<exists>c. sendMessage_call hello_parse
          \<lparr>uuid_user = js ''u1'', uuid_ai = js ''u2'',
           fetch = (\<lambda>req. Body [Chunk (bytes ''{"message":{"content":"He"}}'' @ [0xA]
                                       @ bytes ''{"message":{"content":"llo"}}'')])\<rparr>
          (js ''c1'') (js ''hi'') example_store = Inr c
      \<and> caught c = None
      \<and> aiText (locals c) = js ''Hello''
      \<and> updates c =
          [AddUserMessage (js ''c1'')
             \<lparr>text = js ''hi'', sender = js ''user'', timestamp = js ''u1'', isStreaming = None\<rparr>,
           AddAiMessage (js ''c1'')
             \<lparr>text = [], sender = js ''ai'', timestamp = js ''u2'', isStreaming = Some True\<rparr>,
           Delta (js ''c1'') (js ''u2'') (js ''He''),
           Finalize (js ''c1'') (js ''u2'')]
      \<and> snd (sendMessage hello_parse
          \<lparr>uuid_user = js ''u1'', uuid_ai = js ''u2'',
           fetch = (\<lambda>req. Body [Chunk (bytes ''{"message":{"content":"He"}}'' @ [0xA]
                                       @ bytes ''{"message":{"content":"llo"}}'')])\<rparr>
          (js ''c1'') (js ''hi'') example_store) =
          \<lparr>chats = [example_chat\<lparr>messages :=
             [\<lparr>text = js ''hi'', sender = js ''user'', timestamp = js ''u1'', isStreaming = None\<rparr>,
              \<lparr>text = js ''He'', sender = js ''ai'', timestamp = js ''u2'',
               isStreaming = Some False\<rparr>]\<rparr>],
           currentChatId = Some (js ''c1'')\<rparr>\<close>
  by (simp add: sendMessage_def sendMessage_call_def try_block_def example_store_def example_chat_def
      hello_parse_def parse_table_def he_line_def llo_line_def content_record_def message_content_def
      add_tokens_def apply_updates_def map_messages_def bytes_def js_def decode_eval loop_eval)

subsection \<open>Malformed lines\<close>




fun texts_after :: "jsstring \<Rightarrow> jsstring list \<Rightarrow> jsstring list" where
  "texts_after so_far [] = []"
| "texts_after so_far (delta # deltas) = (so_far @ delta) # texts_after (so_far @ delta) deltas"









lemma texts_after_Nil_iff [simp]: "texts_after so_far ds = [] \<longleftrightarrow> ds = []"
  by (cases ds) auto








section \<open>Persistence\<close>

text \<open>
  The store is created inside \<open>persist(..., { name: "chat-storage", getStorage: () =>
  localStorage })\<close>. The middleware belongs to zustand, not to this repository; with
  these options (no \<open>partialize\<close>, \<open>merge\<close>, \<open>migrate\<close>, \<open>version\<close> or
  \<open>onRehydrateStorage\<close>) it writes \<open>JSON.stringify({ state, version: 0 })\<close> under
  the name after every \<open>set\<close>, and on start parses the item and spreads its
  \<open>state\<close> over the initial state. \<open>persisted\<close> is the value handed to
  \<open>JSON.stringify\<close> (a property that is \<open>undefined\<close> is left out, as are the
  actions); \<open>JSON.parse\<close> gives this value back, and \<open>rehydrate\<close> reads the
  state off it: the fields of each object as the actions and the interface read them.
\<close>

definition message_to_json :: "message \<Rightarrow> json" where
  "message_to_json m =
     JObj ([(js ''text'', JStr (text m)),
            (js ''sender'', JStr (sender m)),
            (js ''timestamp'', JStr (timestamp m))]
           @ (case isStreaming m of None \<Rightarrow> [] | Some b \<Rightarrow> [(js ''isStreaming'', JBool b)]))"

definition chat_to_json :: "chat \<Rightarrow> json" where
  "chat_to_json c =
     JObj [(js ''id'', JStr (chat_id c)),
           (js ''title'', JStr (title c)),
           (js ''model'', JStr (model c)),
           (js ''messages'', JArr (map message_to_json (messages c))),
           (js ''createdAt'', JStr (createdAt c))]"

definition persisted :: "store \<Rightarrow> json" where
  "persisted state =
     JObj [(js ''state'',
            JObj [(js ''chats'', JArr (map chat_to_json (chats state))),
                  (js ''currentChatId'',
                   (case currentChatId state of None \<Rightarrow> JNull | Some i \<Rightarrow> JStr i))]),
           (js ''version'', JNum (js ''0''))]"

definition message_of_json :: "json \<Rightarrow> message option" where
  "message_of_json v =
     (case (get_property v (js ''text''), get_property v (js ''sender''),
            get_property v (js ''timestamp'')) of
        (Some (JStr t), Some (JStr s), Some (JStr ts)) \<Rightarrow>
          Some \<lparr>text = t, sender = s, timestamp = ts,
                isStreaming = (case get_property v (js ''isStreaming'') of
                                 Some (JBool b) \<Rightarrow> Some b
                               | _ \<Rightarrow> None)\<rparr>
      | _ \<Rightarrow> None)"

definition chat_of_json :: "json \<Rightarrow> chat option" where
  "chat_of_json v =
     (case (get_property v (js ''id''), get_property v (js ''title''),
            get_property v (js ''model''), get_property v (js ''messages''),
            get_property v (js ''createdAt'')) of
        (Some (JStr i), Some (JStr t), Some (JStr m), Some (JArr ms), Some (JStr d)) \<Rightarrow>
          (case those (map message_of_json ms) of
             None \<Rightarrow> None
           | Some msgs \<Rightarrow>
               Some \<lparr>chat_id = i, title = t, model = m, messages = msgs, createdAt = d\<rparr>)
      | _ \<Rightarrow> None)"

definition rehydrate :: "json \<Rightarrow> store option" where
  "rehydrate stored =
     (case (get_property stored (js ''state''), get_property stored (js ''version'')) of
        (Some st, Some (JNum version)) \<Rightarrow>
          if version \<noteq> js ''0'' then None
          else
            (case (get_property st (js ''chats''), get_property st (js ''currentChatId'')) of
               (Some (JArr cs), Some cur) \<Rightarrow>
                 (case those (map chat_of_json cs) of
                    None \<Rightarrow> None
                  | Some chs \<Rightarrow>
                      (case cur of
                         JNull \<Rightarrow> Some \<lparr>chats = chs, currentChatId = None\<rparr>
                       | JStr i \<Rightarrow> Some \<lparr>chats = chs, currentChatId = Some i\<rparr>
                       | _ \<Rightarrow> None))
             | _ \<Rightarrow> None)
      | _ \<Rightarrow> None)"

lemma message_round_trip: "message_of_json (message_to_json m) = Some m"
  by (cases "isStreaming m") (simp_all add: message_of_json_def message_to_json_def js_def)

lemma messages_round_trip: "those (map (message_of_json \<circ> message_to_json) ms) = Some ms"
  by (induction ms) (simp_all add: message_round_trip)

lemma chat_round_trip: "chat_of_json (chat_to_json c) = Some c"
  by (simp add: chat_of_json_def chat_to_json_def js_def messages_round_trip)

lemma chats_round_trip: "those (map (chat_of_json \<circ> chat_to_json) cs) = Some cs"
  by (induction cs) (simp_all add: chat_round_trip)

lemma rehydrate_persisted: "rehydrate (persisted state) = Some state"
  by (cases "currentChatId state")
    (simp_all add: rehydrate_def persisted_def js_def chats_round_trip)

definition streaming_store :: store where
  "streaming_store =
     \<lparr>chats = [example_chat\<lparr>messages :=
         [\<lparr>text = js ''hi'', sender = js ''user'', timestamp = js ''u1'', isStreaming = None\<rparr>,
          \<lparr>text = js ''He'', sender = js ''ai'', timestamp = js ''u2'',
            isStreaming = Some True\<rparr>]\<rparr>],
      currentChatId = Some (js ''c1'')\<rparr>"

text \<open>
  C3, as stated, fails in its last part: nothing reconciles a streaming message on
  load. The state below is the one \<open>sendMessage\<close> has written when its first delta
  arrives; stored then and loaded again, the assistant message still has
  \<open>isStreaming = true\<close>.
\<close>

theorem streaming_flag_survives_reload:
  "streaming_store =
     apply_updates
       [AddUserMessage (js ''c1'')
          \<lparr>text = js ''hi'', sender = js ''user'', timestamp = js ''u1'', isStreaming = None\<rparr>,
        AddAiMessage (js ''c1'')
          \<lparr>text = [], sender = js ''ai'', timestamp = js ''u2'', isStreaming = Some True\<rparr>,
        Delta (js ''c1'') (js ''u2'') (js ''He'')]
       example_store
   \<and> rehydrate (persisted streaming_store) = Some streaming_store
   \<and> map (\<lambda>m. isStreaming m) (concat (map messages (chats streaming_store))) = [None, Some True]"
  by (simp add: rehydrate_persisted)
    (simp add: streaming_store_def example_store_def example_chat_def apply_updates_def
      map_messages_def js_def)

text \<open>
  C3, amended. Storing a session collection and loading it again gives back the same
  state: the same chats in the same order, each with the same fields and the same
  messages, and every message with the same fields, the streaming flag included (a
  message stored as streaming is loaded as streaming, one stored without the flag is
  loaded without it).
\<close>

theorem persist_round_trip:
  "rehydrate (persisted state) = Some state
   \<and> map_option (\<lambda>s. map (\<lambda>c. map (\<lambda>m. isStreaming m) (messages c)) (chats s))
         (rehydrate (persisted state)) =
       Some (map (\<lambda>c. map (\<lambda>m. isStreaming m) (messages c)) (chats state))"
  by (simp add: rehydrate_persisted)

section \<open>Reachable states\<close>

text \<open>
  The states the store can be in. Every action is one step. \<open>sendMessage\<close> is split
  where it awaits: its start finds the chat and makes the first two \<open>set\<close> calls,
  every later \<open>set\<close> call is a step of its own, taken from the calls still
  running (\<open>pending\<close>), so that other actions and other calls of \<open>sendMessage\<close>
  come in between. With \<open>guarded\<close>, a streaming message is only added, and
  \<open>sendMessage\<close> is only started, on a chat that has no streaming message at that
  moment; the store itself has neither guard.
\<close>

definition streaming :: "message list \<Rightarrow> message list" where
  "streaming ms = filter (\<lambda>m. isStreaming m = Some True) ms"

definition one_streaming_at_most :: "store \<Rightarrow> bool" where
  "one_streaming_at_most state \<longleftrightarrow> (\<forall>ch\<in>set (chats state). length (streaming (messages ch)) \<le> 1)"

inductive reach :: "bool \<Rightarrow> store \<Rightarrow> update list list \<Rightarrow> bool" where
  start: "reach guarded initial_store []"
| create: "reach guarded state pending \<Longrightarrow>
     createChat uuid now title_arg model_arg state = Inr (new_id, state') \<Longrightarrow>
     reach guarded state' pending"
| add: "reach guarded state pending \<Longrightarrow>
     (guarded \<longrightarrow> isStreaming msg = Some True \<longrightarrow>
        (\<forall>ch\<in>set (chats state). chat_id ch = chatId \<longrightarrow> streaming (messages ch) = [])) \<Longrightarrow>
     reach guarded (addMessage chatId msg state) pending"
| delete: "reach guarded state pending \<Longrightarrow> reach guarded (deleteChat chatId state) pending"
| current: "reach guarded state pending \<Longrightarrow> reach guarded (setCurrentChat chatId' state) pending"
| send: "reach guarded state pending \<Longrightarrow>
     sendMessage_call JSON_parse e chatId messageText state = Inr c \<Longrightarrow>
     (guarded \<longrightarrow>
        (\<forall>ch\<in>set (chats state). chat_id ch = chatId \<longrightarrow> streaming (messages ch) = [])) \<Longrightarrow>
     reach guarded (apply_updates (take 2 (updates c)) state) (drop 2 (updates c) # pending)"
| resume: "reach guarded state pending \<Longrightarrow>
     i < length pending \<Longrightarrow> pending ! i = u # us \<Longrightarrow>
     reach guarded (apply_update u state) (pending[i := us])"

fun later_update :: "update \<Rightarrow> bool" where
  "later_update (AddUserMessage chatId msg) = False"
| "later_update (AddAiMessage chatId msg) = False"
| "later_update _ = True"

lemma streaming_append [simp]: "streaming (xs @ ys) = streaming xs @ streaming ys"
  by (simp add: streaming_def)

lemma streaming_set_text:
  "streaming (map (\<lambda>msg. if timestamp msg = ts then msg\<lparr>text := x\<rparr> else msg) ms) =
   map (\<lambda>msg. if timestamp msg = ts then msg\<lparr>text := x\<rparr> else msg) (streaming ms)"
  by (induction ms) (auto simp: streaming_def)

lemma length_streaming_clear:
  "length (streaming (map (\<lambda>msg. if timestamp msg = ts then upd msg\<lparr>isStreaming := Some False\<rparr> else msg) ms))
   \<le> length (streaming ms)"
  by (induction ms) (auto simp: streaming_def)

lemma one_streaming_map_messages:
  assumes "one_streaming_at_most s"
    and "\<And>ch. ch \<in> set (chats s) \<Longrightarrow> chat_id ch = c \<Longrightarrow> length (streaming (f (messages ch))) \<le> 1"
  shows "one_streaming_at_most (map_messages c f s)"
  using assms by (auto simp: one_streaming_at_most_def chats_map_messages)

lemma later_update_preserves:
  assumes "one_streaming_at_most s" and "later_update u"
  shows "one_streaming_at_most (apply_update u s)"
proof (cases u)
  case (Delta c ts x)
  show ?thesis unfolding Delta apply_update.simps
  proof (rule one_streaming_map_messages[OF assms(1)])
    fix ch assume "ch \<in> set (chats s)"
    then have "length (streaming (messages ch)) \<le> 1"
      using assms(1) by (simp add: one_streaming_at_most_def)
    then show "length (streaming (map (\<lambda>msg. if timestamp msg = ts then msg\<lparr>text := x\<rparr> else msg) (messages ch))) \<le> 1"
      by (simp add: streaming_set_text)
  qed
next
  case (MarkError c ts x)
  show ?thesis unfolding MarkError apply_update.simps
  proof (rule one_streaming_map_messages[OF assms(1)])
    fix ch assume "ch \<in> set (chats s)"
    then have "length (streaming (messages ch)) \<le> 1"
      using assms(1) by (simp add: one_streaming_at_most_def)
    moreover have "length (streaming (map (\<lambda>msg. if timestamp msg = ts
                   then msg\<lparr>text := js ''Error: '' @ x, isStreaming := Some False\<rparr>
                   else msg) (messages ch))) \<le> length (streaming (messages ch))"
      using length_streaming_clear[where upd="\<lambda>msg. msg\<lparr>text := js ''Error: '' @ x\<rparr>"] by simp
    ultimately show "length (streaming (map (\<lambda>msg. if timestamp msg = ts
                   then msg\<lparr>text := js ''Error: '' @ x, isStreaming := Some False\<rparr>
                   else msg) (messages ch))) \<le> 1"
      by (rule order_trans[rotated])
  qed
next
  case (Finalize c ts)
  show ?thesis unfolding Finalize apply_update.simps
  proof (rule one_streaming_map_messages[OF assms(1)])
    fix ch assume "ch \<in> set (chats s)"
    then have "length (streaming (messages ch)) \<le> 1"
      using assms(1) by (simp add: one_streaming_at_most_def)
    moreover have "length (streaming (map (\<lambda>msg. if timestamp msg = ts
                   then msg\<lparr>isStreaming := Some False\<rparr> else msg) (messages ch))) \<le> length (streaming (messages ch))"
      using length_streaming_clear[where upd="\<lambda>msg. msg"] by simp
    ultimately show "length (streaming (map (\<lambda>msg. if timestamp msg = ts
                   then msg\<lparr>isStreaming := Some False\<rparr> else msg) (messages ch))) \<le> 1"
      by (rule order_trans[rotated])
  qed
qed (use assms(2) in simp_all)


lemma deltas_later: "deltas_of c t us \<Longrightarrow> \<forall>u\<in>set us. later_update u"
  by (auto simp: deltas_of_def)

lemma updates_shape:
  assumes "sendMessage_call JSON_parse e chatId messageText state = Inr c"
  shows "\<exists>um am rest. updates c = AddUserMessage chatId um # AddAiMessage chatId am # rest
           \<and> isStreaming um = None \<and> isStreaming am = Some True
           \<and> (\<forall>u\<in>set rest. later_update u)"
proof (cases "find (\<lambda>c. chat_id c = chatId) (chats state)")
  case None
  with assms show ?thesis by (simp add: sendMessage_call_def)
next
  case (Some ch)
  let ?um = "\<lparr>text = messageText, sender = js ''user'', timestamp = uuid_user e, isStreaming = None\<rparr>"
  obtain err st where tb:
    "try_block JSON_parse chatId (uuid_ai e) (fetch e (request_body ch ?um messageText)) = (err, st)"
    by (cases "try_block JSON_parse chatId (uuid_ai e) (fetch e (request_body ch ?um messageText))")
  from sets_try_block[OF tb] have l: "\<forall>u\<in>set (sets st). later_update u"
    by (rule deltas_later)
  have "updates c = AddUserMessage chatId ?um
          # AddAiMessage chatId \<lparr>text = [], sender = js ''ai'', timestamp = uuid_ai e, isStreaming = Some True\<rparr>
          # (sets st @ (case err of None \<Rightarrow> [] | Some msg \<Rightarrow> [MarkError chatId (uuid_ai e) msg])
               @ [Finalize chatId (uuid_ai e)])"
    using assms Some tb by (auto simp: sendMessage_call_def Let_def cong: option.case_cong)
  moreover have "\<forall>u\<in>set (sets st @ (case err of None \<Rightarrow> [] | Some msg \<Rightarrow> [MarkError chatId (uuid_ai e) msg])
               @ [Finalize chatId (uuid_ai e)]). later_update u"
    using l by (auto split: option.splits)
  ultimately show ?thesis by (intro exI conjI) (assumption, simp_all)
qed

lemma addMessage_map_messages: "addMessage c m s = map_messages c (\<lambda>ms. ms @ [m]) s"
  by (simp add: addMessage_def map_messages_def)

lemma reach_invariant:
  "reach g state pending \<Longrightarrow> g \<Longrightarrow>
   one_streaming_at_most state \<and> (\<forall>us\<in>set pending. \<forall>u\<in>set us. later_update u)"
proof (induction rule: reach.induct)
  case (start guarded)
  then show ?case by (simp add: one_streaming_at_most_def initial_store_def)
next
  case (create guarded state pending uuid now title_arg model_arg new_id state')
  then show ?case
    by (auto simp: createChat_def one_streaming_at_most_def Let_def streaming_def split: if_splits)
next
  case (add guarded state pending msg chatId)
  then have inv: "one_streaming_at_most state"
    and free: "isStreaming msg = Some True \<longrightarrow>
        (\<forall>ch\<in>set (chats state). chat_id ch = chatId \<longrightarrow> streaming (messages ch) = [])"
    by simp_all
  have "one_streaming_at_most (addMessage chatId msg state)"
    unfolding addMessage_map_messages
  proof (rule one_streaming_map_messages[OF inv])
    fix ch assume ch: "ch \<in> set (chats state)" "chat_id ch = chatId"
    then have le: "length (streaming (messages ch)) \<le> 1"
      using inv by (simp add: one_streaming_at_most_def)
    show "length (streaming (messages ch @ [msg])) \<le> 1"
    proof (cases "isStreaming msg = Some True")
      case True
      with free ch have "streaming (messages ch) = []" by blast
      then show ?thesis by (simp add: streaming_def)
    next
      case False
      with le show ?thesis by (simp add: streaming_def)
    qed
  qed
  with add show ?case by simp
next
  case (delete guarded state pending chatId)
  then show ?case by (auto simp: deleteChat_def one_streaming_at_most_def)
next
  case (current guarded state pending chatId')
  then show ?case by (auto simp: setCurrentChat_def one_streaming_at_most_def)
next
  case (send guarded state pending JSON_parse e chatId messageText c)
  then have inv: "one_streaming_at_most state"
    and free: "\<forall>ch\<in>set (chats state). chat_id ch = chatId \<longrightarrow> streaming (messages ch) = []"
    by simp_all
  from updates_shape[OF send.hyps(2)] obtain um am rest where
    u: "updates c = AddUserMessage chatId um # AddAiMessage chatId am # rest"
    and l: "\<forall>u\<in>set rest. later_update u" and um: "isStreaming um = None"
    by blast
  have "apply_updates (take 2 (updates c)) state =
        map_messages chatId (\<lambda>ms. (ms @ [um]) @ [am]) state"
    by (simp add: u apply_updates_def map_messages_comp)
  moreover have "one_streaming_at_most (map_messages chatId (\<lambda>ms. (ms @ [um]) @ [am]) state)"
  proof (rule one_streaming_map_messages[OF inv])
    fix ch assume "ch \<in> set (chats state)" "chat_id ch = chatId"
    with free have "streaming (messages ch) = []" by blast
    then show "length (streaming ((messages ch @ [um]) @ [am])) \<le> 1"
      using um by (simp add: streaming_def)
  qed
  ultimately show ?case using send l by (simp add: u)
next
  case (resume guarded state pending i u us)
  then have inv: "one_streaming_at_most state"
    and p: "\<forall>us\<in>set pending. \<forall>u\<in>set us. later_update u" by simp_all
  from resume.hyps(2,3) have m: "u # us \<in> set pending" by (metis nth_mem)
  with p have "later_update u" and us: "\<forall>v\<in>set us. later_update v" by auto
  then have "one_streaming_at_most (apply_update u state)"
    using inv later_update_preserves by blast
  moreover have "\<forall>vs\<in>set (pending[i := us]). \<forall>v\<in>set vs. later_update v"
    using p us by (metis insert_iff set_update_subset_insert subsetD)
  ultimately show ?case by simp
qed

definition once_sent_store :: store where
  "once_sent_store =
     \<lparr>chats = [example_chat\<lparr>messages :=
         [\<lparr>text = js ''hi'', sender = js ''user'', timestamp = js ''u1'', isStreaming = None\<rparr>,
          \<lparr>text = [], sender = js ''ai'', timestamp = js ''u2'', isStreaming = Some True\<rparr>]\<rparr>],
      currentChatId = Some (js ''c1'')\<rparr>"

definition twice_sent_store :: store where
  "twice_sent_store =
     \<lparr>chats = [example_chat\<lparr>messages :=
         [\<lparr>text = js ''hi'', sender = js ''user'', timestamp = js ''u1'', isStreaming = None\<rparr>,
          \<lparr>text = [], sender = js ''ai'', timestamp = js ''u2'', isStreaming = Some True\<rparr>,
          \<lparr>text = js ''again'', sender = js ''user'', timestamp = js ''u3'', isStreaming = None\<rparr>,
          \<lparr>text = [], sender = js ''ai'', timestamp = js ''u4'', isStreaming = Some True\<rparr>]\<rparr>],
      currentChatId = Some (js ''c1'')\<rparr>"

definition twice_added_store :: store where
  "twice_added_store =
     \<lparr>chats = [example_chat\<lparr>messages :=
         [\<lparr>text = js ''a'', sender = js ''ai'', timestamp = js ''t1'', isStreaming = Some True\<rparr>,
          \<lparr>text = js ''b'', sender = js ''ai'', timestamp = js ''t2'', isStreaming = Some True\<rparr>]\<rparr>],
      currentChatId = Some (js ''c1'')\<rparr>"

lemma reach_example_store: "reach g example_store []"
proof -
  have "createChat (js ''c1'') (js ''2025-01-01T00:00:00.000Z'') [] (js ''llama3'') initial_store =
          Inr (js ''c1'', example_store)"
    by (simp add: createChat_def initial_store_def example_store_def example_chat_def js_def)
  with reach.start[of g] show ?thesis by (rule reach.create)
qed

lemma send_begins:
  assumes "find (\<lambda>c. chat_id c = chatId) (chats state) = Some ch"
  shows "\<exists>c. sendMessage_call JSON_parse e chatId messageText state = Inr c
           \<and> take 2 (updates c) =
               [AddUserMessage chatId
                  \<lparr>text = messageText, sender = js ''user'', timestamp = uuid_user e,
                   isStreaming = None\<rparr>,
                AddAiMessage chatId
                  \<lparr>text = [], sender = js ''ai'', timestamp = uuid_ai e, isStreaming = Some True\<rparr>]"
proof -
  let ?um = "\<lparr>text = messageText, sender = js ''user'', timestamp = uuid_user e, isStreaming = None\<rparr>"
  obtain err st where tb:
    "try_block JSON_parse chatId (uuid_ai e) (fetch e (request_body ch ?um messageText)) = (err, st)"
    by (cases "try_block JSON_parse chatId (uuid_ai e) (fetch e (request_body ch ?um messageText))")
  show ?thesis
    using assms tb by (simp add: sendMessage_call_def Let_def)
qed

lemma reach_send_begin:
  assumes "reach g state pending"
    and "find (\<lambda>c. chat_id c = chatId) (chats state) = Some ch"
    and "g \<longrightarrow> (\<forall>ch\<in>set (chats state). chat_id ch = chatId \<longrightarrow> streaming (messages ch) = [])"
  shows "\<exists>pending'. reach g
           (map_messages chatId
              (\<lambda>ms. (ms @ [\<lparr>text = messageText, sender = js ''user'', timestamp = u1,
                              isStreaming = None\<rparr>])
                    @ [\<lparr>text = [], sender = js ''ai'', timestamp = u2, isStreaming = Some True\<rparr>])
              state) pending'"
proof -
  let ?e = "\<lparr>uuid_user = u1, uuid_ai = u2, fetch = (\<lambda>r. Body [])\<rparr>"
  from send_begins[OF assms(2), of "\<lambda>line. None" ?e messageText]
  obtain c where call: "sendMessage_call (\<lambda>line. None) ?e chatId messageText state = Inr c"
    and u: "take 2 (updates c) =
               [AddUserMessage chatId
                  \<lparr>text = messageText, sender = js ''user'', timestamp = u1, isStreaming = None\<rparr>,
                AddAiMessage chatId
                  \<lparr>text = [], sender = js ''ai'', timestamp = u2, isStreaming = Some True\<rparr>]"
    by auto
  have "reach g (apply_updates (take 2 (updates c)) state) (drop 2 (updates c) # pending)"
    using assms(1) call assms(3) by (rule reach.send)
  then show ?thesis
    unfolding u by (auto simp: apply_updates_def map_messages_comp)
qed

lemma reach_once_sent: "\<exists>pending. reach g once_sent_store pending"
proof -
  have f: "find (\<lambda>c. chat_id c = js ''c1'') (chats example_store) = Some example_chat"
    by (simp add: example_store_def example_chat_def)
  have g: "g \<longrightarrow> (\<forall>ch\<in>set (chats example_store). chat_id ch = js ''c1'' \<longrightarrow> streaming (messages ch) = [])"
    by (simp add: example_store_def example_chat_def streaming_def)
  from reach_send_begin[OF reach_example_store f g, of "js ''hi''" "js ''u1''" "js ''u2''"]
  show ?thesis
    by (simp add: map_messages_def example_store_def once_sent_store_def example_chat_def)
qed

lemma reach_twice_sent: "\<exists>pending. reach False twice_sent_store pending"
proof -
  obtain p where r: "reach False once_sent_store p"
    using reach_once_sent by blast
  have f: "find (\<lambda>c. chat_id c = js ''c1'') (chats once_sent_store) =
      Some (example_chat\<lparr>messages :=
         [\<lparr>text = js ''hi'', sender = js ''user'', timestamp = js ''u1'', isStreaming = None\<rparr>,
          \<lparr>text = [], sender = js ''ai'', timestamp = js ''u2'', isStreaming = Some True\<rparr>]\<rparr>)"
    by (simp add: once_sent_store_def example_chat_def)
  from reach_send_begin[OF r f, of "js ''again''" "js ''u3''" "js ''u4''"]
  show ?thesis
    by (simp add: map_messages_def once_sent_store_def twice_sent_store_def example_chat_def)
qed

lemma reach_twice_added: "reach False twice_added_store []"
proof -
  let ?m1 = "\<lparr>text = js ''a'', sender = js ''ai'', timestamp = js ''t1'', isStreaming = Some True\<rparr>"
  let ?m2 = "\<lparr>text = js ''b'', sender = js ''ai'', timestamp = js ''t2'', isStreaming = Some True\<rparr>"
  have "reach False (addMessage (js ''c1'') ?m1 example_store) []"
    using reach_example_store by (rule reach.add) simp
  then have "reach False (addMessage (js ''c1'') ?m2 (addMessage (js ''c1'') ?m1 example_store)) []"
    by (rule reach.add) simp
  moreover have "addMessage (js ''c1'') ?m2 (addMessage (js ''c1'') ?m1 example_store) = twice_added_store"
    by (simp add: addMessage_def example_store_def twice_added_store_def example_chat_def)
  ultimately show ?thesis by simp
qed

definition once_added_store :: store where
  "once_added_store =
     \<lparr>chats = [example_chat\<lparr>messages :=
         [\<lparr>text = js ''a'', sender = js ''ai'', timestamp = js ''t1'', isStreaming = Some True\<rparr>]\<rparr>],
      currentChatId = Some (js ''c1'')\<rparr>"

lemma reach_once_added: "reach g once_added_store []"
proof -
  let ?m1 = "\<lparr>text = js ''a'', sender = js ''ai'', timestamp = js ''t1'', isStreaming = Some True\<rparr>"
  have "reach g (addMessage (js ''c1'') ?m1 example_store) []"
    using reach_example_store
    by (rule reach.add) (simp add: example_store_def example_chat_def streaming_def)
  moreover have "addMessage (js ''c1'') ?m1 example_store = once_added_store"
    by (simp add: addMessage_def example_store_def once_added_store_def example_chat_def)
  ultimately show ?thesis by simp
qed

text \<open>
  C9, as stated, fails. Two calls of \<open>sendMessage\<close> on the same chat, the second
  started while the first awaits its response, leave two placeholders with
  \<open>isStreaming = true\<close> in the chat; so do two calls of \<open>addMessage\<close> with
  streaming messages on the same chat.
\<close>

theorem two_streaming_messages:
  "(\<exists>pending. reach False twice_sent_store pending)
   \<and> \<not> one_streaming_at_most twice_sent_store
   \<and> reach False twice_added_store []
   \<and> \<not> one_streaming_at_most twice_added_store"
  using reach_twice_sent reach_twice_added
  by (simp add: one_streaming_at_most_def twice_sent_store_def twice_added_store_def streaming_def)

text \<open>
  C9, amended. In every state the store reaches while no message with
  \<open>isStreaming = true\<close> is added by \<open>addMessage\<close>, and no \<open>sendMessage\<close> is started,
  on a chat that has a streaming message at that moment, each chat has at most one
  message with \<open>isStreaming = true\<close>. Under this condition every action keeps
  this: \<open>createChat\<close>, \<open>addMessage\<close> (of a message that is not streaming on any
  chat, of a streaming one on a chat that has none), \<open>deleteChat\<close>,
  \<open>setCurrentChat\<close>, the start of \<open>sendMessage\<close>, and each delta, error and
  finalize update of the calls running.
\<close>

theorem guarded_store_one_streaming:
  assumes "reach True state pending"
  shows "one_streaming_at_most state"
  using reach_invariant[OF assms] by simp

theorem guarded_store_one_streaming_witness:
  "one_streaming_at_most once_sent_store \<and> one_streaming_at_most once_added_store"
proof -
  obtain p where r: "reach True once_sent_store p"
    using reach_once_sent by blast
  have a: "reach True once_added_store []"
    by (rule reach_once_added)
  show ?thesis
    using guarded_store_one_streaming[OF r] guarded_store_one_streaming[OF a] by simp
qed

end
